theory Spec2Isabelle
  imports Main "HOL-Library.Word"
begin

section \<open>The parameter store of xLearn (src/data/model_parameters.cc)\<close>

text \<open>
  The class \<open>Model\<close> owns one flat buffer of \<open>real_t\<close> parameters together with the
  metadata needed to interpret it. This theory embeds its member functions
  \<open>Initialize\<close>, \<open>Initialize_w\<close>, \<open>Serialize\<close>, \<open>Deserialize\<close>, \<open>serialize_w\<close> and
  \<open>deserialize_w\<close> as HOL functions over an explicit object state, an explicit
  allocation log and an explicit file system.
\<close>

subsection \<open>Integers, numeric values and the platform\<close>

text \<open>
  Modelled from the spec: \<open>index_t\<close> is declared in a header that is not among the
  sources. The spec describes the counts as non-negative integers that are written to
  the checkpoint as fixed-width integers; they are taken here as unsigned 32-bit
  machine integers, so that \<open>+\<close> and \<open>*\<close> wrap around modulo \<open>2 ^ 32\<close>.
\<close>

type_synonym index_t = "32 word"

text \<open>
  Modelled from the spec: \<open>kAlign\<close> (the spec's \<open>ALIGN_WIDTH\<close>, the number of
  \<open>real_t\<close> lanes of one SIMD register, 4 for single precision) and \<open>kAlignByte\<close>
  (the source comment at \<open>Initialize_w\<close>: for SSE the align number is 16) are constants
  of the absent header.
\<close>

definition kAlign :: index_t where
  "kAlign = 4"

definition kAlignByte :: nat where
  "kAlignByte = 16"

text \<open>
  Floating-point arithmetic, the random engine and the object representation of values
  in memory are fixed by the C++ implementation, not by this file. They are parameters
  of the model: \<open>'r\<close> is the type of \<open>real_t\<close> values and \<open>'g\<close> the type of states of
  \<open>std::default_random_engine\<close>. Every theorem below holds for every platform.
  A file is a sequence of bytes (\<open>char\<close> is a byte, so a file is a \<open>string\<close>).
\<close>

record ('r, 'g) platform =
  r_zero :: 'r  \<comment> \<open>the \<open>real_t\<close> value of the literals \<open>0\<close> and \<open>0.0\<close>\<close>
  r_one :: 'r  \<comment> \<open>the \<open>real_t\<close> value of the literal \<open>1.0\<close>\<close>
  inv_sqrt :: "index_t \<Rightarrow> 'r"  \<comment> \<open>\<open>1.0f / sqrt(k)\<close>, converted to \<open>real_t\<close>\<close>
  r_mult :: "'r \<Rightarrow> 'r \<Rightarrow> 'r"  \<comment> \<open>\<open>real_t\<close> multiplication\<close>
  default_random_engine :: 'g  \<comment> \<open>the state of a default-constructed engine\<close>
  dis :: "'g \<Rightarrow> 'r \<times> 'g"  \<comment> \<open>\<open>dis(generator)\<close>: one draw from \<open>U(0,1)\<close>, and the engine's next state\<close>
  sizeof_real_t :: nat
  real_t_bytes :: "'r \<Rightarrow> string"  \<comment> \<open>object representation of a \<open>real_t\<close>\<close>
  bytes_real_t :: "string \<Rightarrow> 'r"
  sizeof_index_t :: nat
  index_t_bytes :: "index_t \<Rightarrow> string"  \<comment> \<open>object representation of an \<open>index_t\<close>\<close>
  bytes_index_t :: "string \<Rightarrow> index_t"
  sizeof_len :: nat
  len_bytes :: "nat \<Rightarrow> string"  \<comment> \<open>the length prefix of a label\<close>
  bytes_len :: "string \<Rightarrow> nat"

text \<open>
  The object representation is faithful when a value occupies exactly its size and can
  be read back from its bytes. Only the round trip through a checkpoint needs this.
\<close>

definition faithful_repr :: "('r, 'g) platform \<Rightarrow> bool" where
  "faithful_repr P \<longleftrightarrow>
     (\<forall>x. length (index_t_bytes P x) = sizeof_index_t P \<and> bytes_index_t P (index_t_bytes P x) = x) \<and>
     (\<forall>v. length (real_t_bytes P v) = sizeof_real_t P \<and> bytes_real_t P (real_t_bytes P v) = v)"

definition label_fits :: "('r, 'g) platform \<Rightarrow> string \<Rightarrow> bool" where
  "label_fits P s \<longleftrightarrow>
     length (len_bytes P (length s)) = sizeof_len P \<and> bytes_len P (len_bytes P (length s)) = length s"

subsection \<open>Failures\<close>

text \<open>
  \<open>CHECK\<close> and \<open>LOG(FATAL)\<close> end the process; each failure site of the source is one
  constructor. \<open>IOError\<close> is the failure of a file helper. Writing outside the allocated
  block and reading a slot that was never written are undefined behaviour in C++: the
  model stops there with \<open>OutOfBounds\<close> and \<open>UninitialisedRead\<close>.
\<close>

datatype error =
    CHECK_score_func_not_empty
  | CHECK_loss_func_not_empty
  | CHECK_GT_num_feature_0
  | CHECK_GE_num_field_0
  | CHECK_GE_num_K_0
  | CHECK_filename_not_empty
  | FATAL_unknown_score_function string
  | IOError
  | OutOfBounds
  | UninitialisedRead


subsection \<open>The object state, memory blocks and the allocation log\<close>

text \<open>
  A block of memory is the list of its slots; a slot is \<open>None\<close> until it has been
  written (memory returned by \<open>malloc\<close> is indeterminate).
\<close>

type_synonym 'r block = "'r option list"

text \<open>
  The members \<open>score_func_\<close>, \<open>loss_func_\<close>, \<open>num_feat_\<close>, \<open>num_field_\<close>, \<open>num_K_\<close>,
  \<open>param_num_w_\<close> and \<open>param_w_\<close> of the class. A name cannot end with an underscore
  here, so the member \<open>x_\<close> of the source is the field \<open>m_x\<close>.
\<close>

record 'r Model =
  m_score_func :: string
  m_loss_func :: string
  m_num_feat :: index_t
  m_num_field :: index_t
  m_num_K :: index_t
  m_param_num_w :: index_t
  m_param_w :: "'r block"  \<comment> \<open>the block \<open>param_w_\<close> points to\<close>

text \<open>
  The allocation log records every request made to the allocator, oldest first, with its
  size in bytes (and its alignment for \<open>posix_memalign\<close>). Nothing is ever freed. The
  allocator of the model always succeeds.
\<close>

datatype alloc = Malloc nat | Memalign nat nat

type_synonym heap = "alloc list"

text \<open>
  A computation either does not return (\<open>None\<close>), or stops with a failure
  (\<open>Some (Inl (e, h))\<close>, where \<open>h\<close> is the allocation log at that moment), or returns a
  result (\<open>Some (Inr x)\<close>).
\<close>

type_synonym 'a exec = "(error \<times> heap + 'a) option"

definition store :: "'r block \<Rightarrow> nat \<Rightarrow> 'r \<Rightarrow> error + 'r block" where
  "store w i v = (if i < length w then Inr (w[i := Some v]) else Inl OutOfBounds)"

subsection \<open>The padded factor width\<close>

text \<open>
  Modelled from the spec: \<open>get_aligned_k\<close> is a member of \<open>Model\<close> defined in the absent
  header. The spec: \<open>paddedFactors = roundUpToAlignment(factors, ALIGN_WIDTH)\<close>, the factor
  count rounded up to the next multiple of the alignment width. Both callers use its
  result as an \<open>index_t\<close> (\<open>index_t k_aligned = get_aligned_k();\<close> and a factor of
  \<open>param_num_w_\<close>), so the result is the rounded count in \<open>index_t\<close>: it is 0 for a factor
  count above \<open>2 ^ 32 - 4\<close>.
\<close>

definition roundUpToAlignment :: "nat \<Rightarrow> nat \<Rightarrow> nat" where
  "roundUpToAlignment n a = ((n + a - 1) div a) * a"

definition get_aligned_k :: "'r Model \<Rightarrow> index_t" where
  "get_aligned_k this = of_nat (roundUpToAlignment (unat (m_num_K this)) (unat kAlign))"

subsection \<open>Initialize_w: allocation and the initial values\<close>

text \<open>
  The loop of the linear variant:
  \<^verbatim>\<open>for (index_t i = 0; i < param_num_w_; i += 2) { param_w_[i] = 0; param_w_[i+1] = 1.0; }\<close>
  The counter is an \<open>index_t\<close> and wraps around: for an odd bound and a block of \<open>2 ^ 32\<close>
  slots or more the loop would not return, so it is a partial function. It returns for the
  even bounds that \<open>Initialize\<close> computes (\<open>linear_loop_run\<close> and \<open>fm_loop_run\<close> below).
\<close>

partial_function (option) linear_loop ::
  "('r, 'g) platform \<Rightarrow> index_t \<Rightarrow> index_t \<Rightarrow> 'r block \<Rightarrow> (error + 'r block) option" where
  "linear_loop P i n w =
     (if i < n then
        (case store w (unat i) (r_zero P) of
           Inl e \<Rightarrow> Some (Inl e)
         | Inr w1 \<Rightarrow>
             (case store w1 (unat (i + 1)) (r_one P) of
                Inl e \<Rightarrow> Some (Inl e)
              | Inr w2 \<Rightarrow> linear_loop P (i + 2) n w2))
      else Some (Inr w))"

text \<open>
  The loop of the factorization machine:
  \<^verbatim>\<open>for (index_t i = 0; i < param_num_w_; i += 2) {
    real_t coef = 1.0f / sqrt(num_K_);
    param_w_[i] = coef * dis(generator);
    param_w_[i+1] = 1.0; }\<close>
\<close>

partial_function (option) fm_loop ::
  "('r, 'g) platform \<Rightarrow> index_t \<Rightarrow> index_t \<Rightarrow> index_t \<Rightarrow> 'g \<Rightarrow> 'r block \<Rightarrow> (error + 'r block) option" where
  "fm_loop P nK i n g w =
     (if i < n then
        (case dis P g of (u, g1) \<Rightarrow>
           (case store w (unat i) (r_mult P (inv_sqrt P nK) u) of
              Inl e \<Rightarrow> Some (Inl e)
            | Inr w1 \<Rightarrow>
                (case store w1 (unat (i + 1)) (r_one P) of
                   Inl e \<Rightarrow> Some (Inl e)
                 | Inr w2 \<Rightarrow> fm_loop P nK (i + 2) n g1 w2)))
      else Some (Inr w))"

declare linear_loop.simps [code]

declare fm_loop.simps [code]

text \<open>
  The four nested loops of the field-aware variant. \<open>w\<close> is the offset of the moving
  pointer \<open>real_t* w\<close> from \<open>param_w_\<close>. Innermost:
  \<^verbatim>\<open>for (index_t s = 0; s < kAlign; s++, w++, d++) {
    w[0] = (d < num_K_) ? coef * dis(generator) : 0.0;
    w[kAlign] = 1.0; }\<close>
  \<open>ffm_weight\<close> is the conditional expression: the value stored and the state of the
  engine afterwards (the engine is used only when \<open>d < num_K_\<close>).
\<close>

definition ffm_weight :: "('r, 'g) platform \<Rightarrow> index_t \<Rightarrow> 'r \<Rightarrow> index_t \<Rightarrow> 'g \<Rightarrow> 'r \<times> 'g" where
  "ffm_weight P nK coef d g =
     (if d < nK then (case dis P g of (u, g1) \<Rightarrow> (r_mult P coef u, g1)) else (r_zero P, g))"

function ffm_s_loop ::
  "('r, 'g) platform \<Rightarrow> index_t \<Rightarrow> 'r \<Rightarrow> index_t \<Rightarrow> index_t \<Rightarrow> nat \<Rightarrow> 'g \<Rightarrow> 'r block \<Rightarrow>
     error + (index_t \<times> nat \<times> 'g \<times> 'r block)" where
  "ffm_s_loop P nK coef s d w g buf =
     (if s < kAlign then
        (case ffm_weight P nK coef d g of
           (v, g2) \<Rightarrow>
             (case store buf w v of
                Inl e \<Rightarrow> Inl e
              | Inr buf1 \<Rightarrow>
                  (case store buf1 (w + unat kAlign) (r_one P) of
                     Inl e \<Rightarrow> Inl e
                   | Inr buf2 \<Rightarrow> ffm_s_loop P nK coef (s + 1) (d + 1) (w + 1) g2 buf2)))
      else Inr (d, w, g, buf))"
  by pat_completeness auto
termination
proof (relation "measure (\<lambda>(P, nK, coef, s, d, w, g, buf). unat kAlign - unat s)")
  show "wf (measure (\<lambda>(P :: ('r, 'g) platform, nK :: index_t, coef :: 'r, s :: index_t,
      d :: index_t, w :: nat, g :: 'g, buf :: 'r block). unat kAlign - unat s))"
    by simp
next
  fix P :: "('r, 'g) platform" and nK :: index_t and coef :: 'r and s d :: index_t
    and w :: nat and g :: 'g and buf :: "'r block" and x v g2 buf1 buf2
  assume "s < kAlign"
  then have "unat s < 4"
    by (simp add: kAlign_def word_less_nat_alt)
  then have "unat (s + 1) = unat s + 1"
    by (simp add: unat_word_ariths)
  with \<open>unat s < 4\<close>
  show "((P, nK, coef, s + 1, d + 1, w + 1, g2, buf2), (P, nK, coef, s, d, w, g, buf))
          \<in> measure (\<lambda>(P, nK, coef, s, d, w, g, buf). unat kAlign - unat s)"
    by (simp add: kAlign_def)
qed

declare ffm_s_loop.simps [simp del]

text \<open>
  A counter below a bound can be incremented without wrapping around.
\<close>

lemma unat_plus_one: "(a :: index_t) < b \<Longrightarrow> unat (a + 1) = unat a + 1"
proof -
  assume "a < b"
  then have "unat a < unat b"
    by (simp add: word_less_nat_alt)
  moreover have "unat b < 2 ^ 32"
    using unsigned_less [of b, where ?'a = nat] by simp
  ultimately show ?thesis
    by (simp add: unat_word_ariths)
qed

lemma ffm_s_loop_progress:
  "ffm_s_loop P nK coef s d w g buf = Inr (d', w', g', buf') \<Longrightarrow>
     length buf' = length buf \<and> w \<le> w' \<and> (s < kAlign \<longrightarrow> w < length buf)"
proof (induction P nK coef s d w g buf rule: ffm_s_loop.induct)
  case (1 P nK coef s d w g buf)
  show ?case
  proof (cases "s < kAlign")
    case False
    with "1.prems" show ?thesis
      by (simp add: ffm_s_loop.simps [of P nK coef s d w g buf])
  next
    case True
    obtain v g2 where vg: "ffm_weight P nK coef d g = (v, g2)"
      by (cases "ffm_weight P nK coef d g") blast
    from True vg "1.prems" obtain buf1 where b1: "store buf w v = Inr buf1"
      by (simp add: ffm_s_loop.simps [of P nK coef s d w g buf] del: ffm_s_loop.simps
          split: sum.splits)
    from True vg b1 "1.prems" obtain buf2 where b2: "store buf1 (w + unat kAlign) (r_one P) = Inr buf2"
      by (simp add: ffm_s_loop.simps [of P nK coef s d w g buf] del: ffm_s_loop.simps
          split: sum.splits)
    from True vg b1 b2 "1.prems"
    have rec: "ffm_s_loop P nK coef (s + 1) (d + 1) (w + 1) g2 buf2 = Inr (d', w', g', buf')"
      by (simp add: ffm_s_loop.simps [of P nK coef s d w g buf] del: ffm_s_loop.simps)
    from "1.IH" [OF True vg [symmetric] b1 b2 rec]
    have "length buf' = length buf2" and "w + 1 \<le> w'"
      by simp_all
    moreover from b1 have "length buf1 = length buf" and "w < length buf"
      by (auto simp: store_def split: if_splits)
    moreover from b2 have "length buf2 = length buf1"
      by (auto simp: store_def split: if_splits)
    ultimately show ?thesis
      by simp
  qed
qed

text \<open>
  The loop over the factor positions of one (feature, field) block; it has no increment
  of its own, \<open>d\<close> and \<open>w\<close> are advanced by the inner loop:
  \<^verbatim>\<open>for (index_t d = 0; d < k_aligned; ) { <inner loop>  w += kAlign; }\<close>
\<close>

function ffm_d_loop ::
  "('r, 'g) platform \<Rightarrow> index_t \<Rightarrow> 'r \<Rightarrow> index_t \<Rightarrow> index_t \<Rightarrow> nat \<Rightarrow> 'g \<Rightarrow> 'r block \<Rightarrow>
     error + (nat \<times> 'g \<times> 'r block)" where
  "ffm_d_loop P nK coef k_aligned d w g buf =
     (if d < k_aligned then
        (case ffm_s_loop P nK coef 0 d w g buf of
           Inl e \<Rightarrow> Inl e
         | Inr (d1, w1, g1, buf1) \<Rightarrow> ffm_d_loop P nK coef k_aligned d1 (w1 + unat kAlign) g1 buf1)
      else Inr (w, g, buf))"
  by pat_completeness auto
termination
proof (relation "measure (\<lambda>(P, nK, coef, k_aligned, d, w, g, buf). length buf - w)")
  show "wf (measure (\<lambda>(P :: ('r, 'g) platform, nK :: index_t, coef :: 'r, k_aligned :: index_t,
      d :: index_t, w :: nat, g :: 'g, buf :: 'r block). length buf - w))"
    by simp
next
  fix P :: "('r, 'g) platform" and nK :: index_t and coef :: 'r and k_aligned d :: index_t
    and w :: nat and g :: 'g and buf :: "'r block" and x2 d1 y w1 z g1 buf1
  show "d < k_aligned \<Longrightarrow> ffm_s_loop P nK coef 0 d w g buf = Inr x2 \<Longrightarrow> (d1, y) = x2 \<Longrightarrow>
      (w1, z) = y \<Longrightarrow> (g1, buf1) = z \<Longrightarrow>
      ((P, nK, coef, k_aligned, d1, w1 + unat kAlign, g1, buf1), (P, nK, coef, k_aligned, d, w, g, buf))
          \<in> measure (\<lambda>(P, nK, coef, k_aligned, d, w, g, buf). length buf - w)"
    using ffm_s_loop_progress [of P nK coef 0 d w g buf d1 w1 g1 buf1]
    by (auto simp: kAlign_def)
qed

declare ffm_d_loop.simps [simp del]

text \<open>
  The loops over the fields of one feature and over the features:
  \<^verbatim>\<open>for (index_t j = 0; j < num_feat_; ++j) {
    for (index_t f = 0; f < num_field_; ++f) { <loop over d> } }\<close>
\<close>

function ffm_f_loop ::
  "('r, 'g) platform \<Rightarrow> index_t \<Rightarrow> 'r \<Rightarrow> index_t \<Rightarrow> index_t \<Rightarrow> index_t \<Rightarrow> nat \<Rightarrow> 'g \<Rightarrow> 'r block \<Rightarrow>
     error + (nat \<times> 'g \<times> 'r block)" where
  "ffm_f_loop P nK coef k_aligned nfield f w g buf =
     (if f < nfield then
        (case ffm_d_loop P nK coef k_aligned 0 w g buf of
           Inl e \<Rightarrow> Inl e
         | Inr (w1, g1, buf1) \<Rightarrow> ffm_f_loop P nK coef k_aligned nfield (f + 1) w1 g1 buf1)
      else Inr (w, g, buf))"
  by pat_completeness auto
termination
  by (relation "measure (\<lambda>(P, nK, coef, k_aligned, nfield, f, w, g, buf). unat nfield - unat f)")
    (auto simp: unat_plus_one word_less_nat_alt)

declare ffm_f_loop.simps [simp del]

function ffm_j_loop ::
  "('r, 'g) platform \<Rightarrow> index_t \<Rightarrow> 'r \<Rightarrow> index_t \<Rightarrow> index_t \<Rightarrow> index_t \<Rightarrow> index_t \<Rightarrow> nat \<Rightarrow> 'g \<Rightarrow>
     'r block \<Rightarrow> error + (nat \<times> 'g \<times> 'r block)" where
  "ffm_j_loop P nK coef k_aligned nfield nfeat j w g buf =
     (if j < nfeat then
        (case ffm_f_loop P nK coef k_aligned nfield 0 w g buf of
           Inl e \<Rightarrow> Inl e
         | Inr (w1, g1, buf1) \<Rightarrow> ffm_j_loop P nK coef k_aligned nfield nfeat (j + 1) w1 g1 buf1)
      else Inr (w, g, buf))"
  by pat_completeness auto
termination
  by (relation "measure (\<lambda>(P, nK, coef, k_aligned, nfield, nfeat, j, w, g, buf). unat nfeat - unat j)")
    (auto simp: unat_plus_one word_less_nat_alt)

declare ffm_j_loop.simps [simp del]

text \<open>
  \<open>Initialize_w\<close> allocates \<open>param_num_w_\<close> slots (\<open>malloc\<close> for the linear variant and
  the factorization machine, \<open>posix_memalign\<close> for the field-aware variant) and, when
  \<open>set_value\<close> holds, fills them. The random engine is a local variable, constructed by
  default on every call. \<open>malloc\<close> does not throw, so the handler of \<open>std::bad_alloc\<close> is
  never entered.
\<close>

definition Initialize_w ::
  "('r, 'g) platform \<Rightarrow> 'r Model \<Rightarrow> bool \<Rightarrow> heap \<Rightarrow> ('r Model \<times> heap) exec" where
  "Initialize_w P this set_value h =
     (case
        (if m_score_func this = ''linear'' \<or> m_score_func this = ''fm'' then
           Inr (this\<lparr>m_param_w := replicate (unat (m_param_num_w this)) None\<rparr>,
                h @ [Malloc (unat (m_param_num_w this) * sizeof_real_t P)])
         else if m_score_func this = ''ffm'' then
           Inr (this\<lparr>m_param_w := replicate (unat (m_param_num_w this)) None\<rparr>,
                h @ [Memalign kAlignByte (unat (m_param_num_w this) * sizeof_real_t P)])
         else Inl (FATAL_unknown_score_function (m_score_func this)))
      of
        Inl e \<Rightarrow> Some (Inl (e, h))
      | Inr (this1, h1) \<Rightarrow>
          (let generator = default_random_engine P in
           if set_value then
             (if m_score_func this1 = ''linear'' then
                (case linear_loop P 0 (m_param_num_w this1) (m_param_w this1) of
                   None \<Rightarrow> None
                 | Some (Inl e) \<Rightarrow> Some (Inl (e, h1))
                 | Some (Inr buf) \<Rightarrow> Some (Inr (this1\<lparr>m_param_w := buf\<rparr>, h1)))
              else if m_score_func this1 = ''fm'' then
                (case fm_loop P (m_num_K this1) 0 (m_param_num_w this1) generator (m_param_w this1) of
                   None \<Rightarrow> None
                 | Some (Inl e) \<Rightarrow> Some (Inl (e, h1))
                 | Some (Inr buf) \<Rightarrow> Some (Inr (this1\<lparr>m_param_w := buf\<rparr>, h1)))
              else if m_score_func this1 = ''ffm'' then
                (let k_aligned = get_aligned_k this1;
                     w = 0;
                     coef = inv_sqrt P (m_num_K this1)
                 in case ffm_j_loop P (m_num_K this1) coef k_aligned (m_num_field this1)
                           (m_num_feat this1) 0 w generator (m_param_w this1) of
                      Inl e \<Rightarrow> Some (Inl (e, h1))
                    | Inr (w1, g1, buf) \<Rightarrow> Some (Inr (this1\<lparr>m_param_w := buf\<rparr>, h1)))
              else Some (Inl (FATAL_unknown_score_function (m_score_func this1), h1)))
           else Some (Inr (this1, h1))))"

subsection \<open>Initialize: a fresh model\<close>

text \<open>
  The checks, the assignment of the metadata, the number of parameters of the variant
  (computed in \<open>index_t\<close>) and the call \<open>Initialize_w(true)\<close>. \<open>this\<close> is the state of the
  object before the call.
\<close>

definition Initialize ::
  "('r, 'g) platform \<Rightarrow> 'r Model \<Rightarrow> string \<Rightarrow> string \<Rightarrow> index_t \<Rightarrow> index_t \<Rightarrow> index_t \<Rightarrow> heap \<Rightarrow>
     ('r Model \<times> heap) exec" where
  "Initialize P this score_func loss_func num_feature num_field num_K h =
     (if score_func = [] then Some (Inl (CHECK_score_func_not_empty, h))
      else if loss_func = [] then Some (Inl (CHECK_loss_func_not_empty, h))
      else if \<not> num_feature > 0 then Some (Inl (CHECK_GT_num_feature_0, h))
      else if \<not> num_field \<ge> 0 then Some (Inl (CHECK_GE_num_field_0, h))
      else if \<not> num_K \<ge> 0 then Some (Inl (CHECK_GE_num_K_0, h))
      else
        (let this1 = this\<lparr>m_score_func := score_func, m_loss_func := loss_func,
                          m_num_feat := num_feature, m_num_field := num_field, m_num_K := num_K\<rparr>
         in if score_func = ''linear'' then
              Initialize_w P (this1\<lparr>m_param_num_w := num_feature * 2\<rparr>) True h
            else if score_func = ''fm'' then
              Initialize_w P (this1\<lparr>m_param_num_w := num_feature * num_K * 2\<rparr>) True h
            else if score_func = ''ffm'' then
              Initialize_w P (this1\<lparr>m_param_num_w :=
                  num_feature * get_aligned_k this1 * num_field * 2\<rparr>) True h
            else Some (Inl (FATAL_unknown_score_function score_func, h))))"

subsection \<open>Files\<close>

text \<open>
  Modelled from the spec: the helpers \<open>OpenFileOrDie\<close>, \<open>Close\<close>, \<open>WriteDataToDisk\<close>,
  \<open>ReadDataFromDisk\<close>, \<open>WriteStringToFile\<close> and \<open>ReadStringFromFile\<close> are defined in
  src/base/file_util.h, which is not among the sources. The spec: a checkpoint is a binary
  file; a label is written as its length followed by its bytes; data is written verbatim;
  opening a missing file and reading past the end of a file fail with \<open>IOError\<close>; saving
  fails with \<open>IOError\<close> if the sink cannot be opened or a write is short.
  A file system maps a file name to the bytes of the file. A disk is a file system
  together with the names that can be opened for writing and the number of bytes that can
  still be written to it. A file opened for reading is the sequence of bytes not read yet;
  a file opened for writing is the sequence of bytes written so far, with the number of
  bytes that can still be written. A write of more bytes than that is short.
\<close>

type_synonym FILE = string

type_synonym filesystem = "string \<Rightarrow> string option"

record disk =
  d_files :: filesystem
  d_writable :: "string \<Rightarrow> bool"
  d_room :: nat

type_synonym FILE_w = "string \<times> nat"

definition OpenFileOrDie_r :: "filesystem \<Rightarrow> string \<Rightarrow> error + FILE" where
  "OpenFileOrDie_r fs filename = (case fs filename of None \<Rightarrow> Inl IOError | Some bytes \<Rightarrow> Inr bytes)"

definition OpenFileOrDie_w :: "disk \<Rightarrow> string \<Rightarrow> error + FILE_w" where
  "OpenFileOrDie_w dk filename =
     (if d_writable dk filename then Inr ([], d_room dk) else Inl IOError)"

definition Close_w :: "disk \<Rightarrow> string \<Rightarrow> FILE_w \<Rightarrow> disk" where
  "Close_w dk filename file = dk\<lparr>d_files := (d_files dk)(filename \<mapsto> fst file), d_room := snd file\<rparr>"

definition WriteDataToDisk :: "FILE_w \<Rightarrow> string \<Rightarrow> error + FILE_w" where
  "WriteDataToDisk file bytes =
     (if length bytes \<le> snd file then Inr (fst file @ bytes, snd file - length bytes)
      else Inl IOError)"

definition ReadDataFromDisk :: "FILE \<Rightarrow> nat \<Rightarrow> error + (string \<times> FILE)" where
  "ReadDataFromDisk file len =
     (if length file < len then Inl IOError else Inr (take len file, drop len file))"

definition WriteStringToFile :: "('r, 'g) platform \<Rightarrow> FILE_w \<Rightarrow> string \<Rightarrow> error + FILE_w" where
  "WriteStringToFile P file str =
     (case WriteDataToDisk file (len_bytes P (length str)) of
        Inl e \<Rightarrow> Inl e
      | Inr file1 \<Rightarrow> WriteDataToDisk file1 str)"

definition ReadStringFromFile :: "('r, 'g) platform \<Rightarrow> FILE \<Rightarrow> error + (string \<times> FILE)" where
  "ReadStringFromFile P file =
     (case ReadDataFromDisk file (sizeof_len P) of
        Inl e \<Rightarrow> Inl e
      | Inr (bytes, file1) \<Rightarrow> ReadDataFromDisk file1 (bytes_len P bytes))"

text \<open>
  The bytes of a block of \<open>n\<close> slots, and the slots read back from bytes.
\<close>

fun block_bytes :: "('r, 'g) platform \<Rightarrow> 'r block \<Rightarrow> error + string" where
  "block_bytes P [] = Inr []"
| "block_bytes P (None # w) = Inl UninitialisedRead"
| "block_bytes P (Some v # w) =
     (case block_bytes P w of Inl e \<Rightarrow> Inl e | Inr bytes \<Rightarrow> Inr (real_t_bytes P v @ bytes))"

definition chunks :: "nat \<Rightarrow> nat \<Rightarrow> string \<Rightarrow> string list" where
  "chunks sz n bytes = map (\<lambda>i. take sz (drop (i * sz) bytes)) [0..<n]"

definition load_block :: "('r, 'g) platform \<Rightarrow> 'r block \<Rightarrow> nat \<Rightarrow> string \<Rightarrow> error + 'r block" where
  "load_block P w n bytes =
     (if n \<le> length w
      then Inr (map (\<lambda>c. Some (bytes_real_t P c)) (chunks (sizeof_real_t P) n bytes) @ drop n w)
      else Inl OutOfBounds)"

subsection \<open>Serialize and Deserialize\<close>

text \<open>
  \<open>serialize_w\<close> writes \<open>param_num_w_\<close> and then the \<open>sizeof(real_t) * param_num_w_\<close>
  bytes at \<open>param_w_\<close>.
\<close>

definition serialize_w :: "('r, 'g) platform \<Rightarrow> 'r Model \<Rightarrow> FILE_w \<Rightarrow> error + FILE_w" where
  "serialize_w P this file =
     (case WriteDataToDisk file (index_t_bytes P (m_param_num_w this)) of
        Inl e \<Rightarrow> Inl e
      | Inr file1 \<Rightarrow>
          if length (m_param_w this) < unat (m_param_num_w this) then Inl OutOfBounds
          else (case block_bytes P (take (unat (m_param_num_w this)) (m_param_w this)) of
                  Inl e \<Rightarrow> Inl e
                | Inr bytes \<Rightarrow> WriteDataToDisk file1 bytes))"

text \<open>
  \<open>Serialize\<close> checks the name, opens the file for writing, writes the two labels, the three
  counts and the parameters, and closes the file. It stops at the first failure; the result
  is the disk after the call.
\<close>

definition Serialize :: "('r, 'g) platform \<Rightarrow> 'r Model \<Rightarrow> string \<Rightarrow> disk \<Rightarrow> error + disk" where
  "Serialize P this filename dk =
     (if filename = [] then Inl CHECK_filename_not_empty
      else
        (case OpenFileOrDie_w dk filename of
           Inl e \<Rightarrow> Inl e
         | Inr file \<Rightarrow>
         (case WriteStringToFile P file (m_score_func this) of
            Inl e \<Rightarrow> Inl e
          | Inr file1 \<Rightarrow>
          (case WriteStringToFile P file1 (m_loss_func this) of
             Inl e \<Rightarrow> Inl e
           | Inr file2 \<Rightarrow>
           (case WriteDataToDisk file2 (index_t_bytes P (m_num_feat this)) of
              Inl e \<Rightarrow> Inl e
            | Inr file3 \<Rightarrow>
            (case WriteDataToDisk file3 (index_t_bytes P (m_num_field this)) of
               Inl e \<Rightarrow> Inl e
             | Inr file4 \<Rightarrow>
             (case WriteDataToDisk file4 (index_t_bytes P (m_num_K this)) of
                Inl e \<Rightarrow> Inl e
              | Inr file5 \<Rightarrow>
              (case serialize_w P this file5 of
                 Inl e \<Rightarrow> Inl e
               | Inr file6 \<Rightarrow> Inr (Close_w dk filename file6)))))))))"

text \<open>
  \<open>deserialize_w\<close> reads \<open>param_num_w_\<close>, allocates with \<open>Initialize_w(false)\<close> and reads
  \<open>sizeof(real_t) * param_num_w_\<close> bytes into the new block.
\<close>

definition deserialize_w ::
  "('r, 'g) platform \<Rightarrow> 'r Model \<Rightarrow> FILE \<Rightarrow> heap \<Rightarrow> ('r Model \<times> FILE \<times> heap) exec" where
  "deserialize_w P this file h =
     (case ReadDataFromDisk file (sizeof_index_t P) of
        Inl e \<Rightarrow> Some (Inl (e, h))
      | Inr (bytes, file1) \<Rightarrow>
          (case Initialize_w P (this\<lparr>m_param_num_w := bytes_index_t P bytes\<rparr>) False h of
             None \<Rightarrow> None
           | Some (Inl eh) \<Rightarrow> Some (Inl eh)
           | Some (Inr (this1, h1)) \<Rightarrow>
               (case ReadDataFromDisk file1 (sizeof_real_t P * unat (m_param_num_w this1)) of
                  Inl e \<Rightarrow> Some (Inl (e, h1))
                | Inr (bytes2, file2) \<Rightarrow>
                    (case load_block P (m_param_w this1) (unat (m_param_num_w this1)) bytes2 of
                       Inl e \<Rightarrow> Some (Inl (e, h1))
                     | Inr buf \<Rightarrow> Some (Inr (this1\<lparr>m_param_w := buf\<rparr>, file2, h1))))))"

text \<open>
  \<open>Deserialize\<close>. A file that cannot be opened ends the process in \<open>OpenFileOrDie\<close>, so the
  test \<open>file == NULL\<close> never succeeds and \<open>Deserialize\<close> returns \<open>true\<close> whenever it returns;
  the result of the model is the state of the object and the allocation log after the call.
  The constructor \<open>Model(filename)\<close> checks that the name is not empty and calls
  \<open>Deserialize\<close>.
\<close>

definition Deserialize ::
  "('r, 'g) platform \<Rightarrow> 'r Model \<Rightarrow> string \<Rightarrow> filesystem \<Rightarrow> heap \<Rightarrow> ('r Model \<times> heap) exec" where
  "Deserialize P this filename fs h =
     (if filename = [] then Some (Inl (CHECK_filename_not_empty, h))
      else
        (case OpenFileOrDie_r fs filename of
           Inl e \<Rightarrow> Some (Inl (e, h))
         | Inr file \<Rightarrow>
             (case ReadStringFromFile P file of
                Inl e \<Rightarrow> Some (Inl (e, h))
              | Inr (score_func, file1) \<Rightarrow>
                  (case ReadStringFromFile P file1 of
                     Inl e \<Rightarrow> Some (Inl (e, h))
                   | Inr (loss_func, file2) \<Rightarrow>
                       (case ReadDataFromDisk file2 (sizeof_index_t P) of
                          Inl e \<Rightarrow> Some (Inl (e, h))
                        | Inr (b_feat, file3) \<Rightarrow>
                            (case ReadDataFromDisk file3 (sizeof_index_t P) of
                               Inl e \<Rightarrow> Some (Inl (e, h))
                             | Inr (b_field, file4) \<Rightarrow>
                                 (case ReadDataFromDisk file4 (sizeof_index_t P) of
                                    Inl e \<Rightarrow> Some (Inl (e, h))
                                  | Inr (b_K, file5) \<Rightarrow>
                                      (case deserialize_w P
                                              (this\<lparr>m_score_func := score_func, m_loss_func := loss_func,
                                                    m_num_feat := bytes_index_t P b_feat,
                                                    m_num_field := bytes_index_t P b_field,
                                                    m_num_K := bytes_index_t P b_K\<rparr>) file5 h of
                                         None \<Rightarrow> None
                                       | Some (Inl e) \<Rightarrow> Some (Inl e)
                                       | Some (Inr (this1, file6, h1)) \<Rightarrow> Some (Inr (this1, h1))))))))))"

text \<open>
  The request \<open>Initialize_w\<close> makes to the allocator for \<open>n\<close> slots.
\<close>

definition alloc_of :: "('r, 'g) platform \<Rightarrow> string \<Rightarrow> index_t \<Rightarrow> alloc" where
  "alloc_of P variant n =
     (if variant = ''ffm'' then Memalign kAlignByte (unat n * sizeof_real_t P)
      else Malloc (unat n * sizeof_real_t P))"

subsection \<open>The layout of a checkpoint\<close>

text \<open>
  The spec's layout of a checkpoint (section 6): the two labels, each after its length,
  the three counts and the slot count as fixed-width integers, then the values.
  \<open>header_bytes\<close> is the header of a checkpoint with the given fields; \<open>parse_header\<close>
  splits the bytes of a file into the fields of the header and the bytes after it, and is
  \<open>None\<close> when the file ends before the header does.
\<close>

definition header_bytes ::
  "('r, 'g) platform \<Rightarrow> string \<Rightarrow> string \<Rightarrow> index_t \<Rightarrow> index_t \<Rightarrow> index_t \<Rightarrow> index_t \<Rightarrow> string" where
  "header_bytes P variant loss nfeat nfield nK n =
     len_bytes P (length variant) @ variant @ len_bytes P (length loss) @ loss @
     index_t_bytes P nfeat @ index_t_bytes P nfield @ index_t_bytes P nK @ index_t_bytes P n"

text \<open>
  The bytes of the checkpoint of a model whose slots have all been written.
\<close>

definition checkpoint_bytes :: "('r, 'g) platform \<Rightarrow> 'r Model \<Rightarrow> string" where
  "checkpoint_bytes P m =
     header_bytes P (m_score_func m) (m_loss_func m) (m_num_feat m) (m_num_field m) (m_num_K m)
       (m_param_num_w m) @
     concat (map (real_t_bytes P) (map the (m_param_w m)))"

definition parse_header ::
  "('r, 'g) platform \<Rightarrow> string \<Rightarrow> (string \<times> string \<times> index_t \<times> index_t \<times> index_t \<times> index_t \<times> string) option" where
  "parse_header P bytes =
     (case ReadStringFromFile P bytes of
        Inl e \<Rightarrow> None
      | Inr (variant, b1) \<Rightarrow>
          (case ReadStringFromFile P b1 of
             Inl e \<Rightarrow> None
           | Inr (loss, b2) \<Rightarrow>
               (case ReadDataFromDisk b2 (sizeof_index_t P) of
                  Inl e \<Rightarrow> None
                | Inr (x1, b3) \<Rightarrow>
                    (case ReadDataFromDisk b3 (sizeof_index_t P) of
                       Inl e \<Rightarrow> None
                     | Inr (x2, b4) \<Rightarrow>
                         (case ReadDataFromDisk b4 (sizeof_index_t P) of
                            Inl e \<Rightarrow> None
                          | Inr (x3, b5) \<Rightarrow>
                              (case ReadDataFromDisk b5 (sizeof_index_t P) of
                                 Inl e \<Rightarrow> None
                               | Inr (x4, b6) \<Rightarrow>
                                   Some (variant, loss, bytes_index_t P x1, bytes_index_t P x2,
                                         bytes_index_t P x3, bytes_index_t P x4, b6)))))))"

subsection \<open>A concrete platform\<close>

text \<open>
  One platform on which the definitions can be run: a \<open>real_t\<close> is the 32 bits of a
  single-precision number (\<open>0\<close> is 0.0 and \<open>0x3F800000\<close> is 1.0), an engine state is a counter,
  and values are laid out in memory with the least significant byte first. Its arithmetic
  is a stand-in (the product of the scale and a draw is the draw): the examples below do
  not depend on the values of the random weights, only on where they are stored.
  \<open>empty_Model\<close> is an object before any member has been set.
\<close>

definition le_bytes :: "32 word \<Rightarrow> string" where
  "le_bytes x = map (\<lambda>i. char_of (drop_bit (8 * i) (uint x))) [0, 1, 2, 3]"

definition bytes_le :: "string \<Rightarrow> 32 word" where
  "bytes_le bytes = word_of_int (foldr (\<lambda>c n. of_char c + 256 * n) (take 4 bytes) 0)"

definition test_platform :: "(32 word, nat) platform" where
  "test_platform =
     \<lparr>r_zero = 0, r_one = 0x3F800000, inv_sqrt = (\<lambda>k. 0x3F000000), r_mult = (\<lambda>a b. b),
      default_random_engine = 1, dis = (\<lambda>g. (0x3E000000 + of_nat g, g + 1)),
      sizeof_real_t = 4, real_t_bytes = le_bytes, bytes_real_t = bytes_le,
      sizeof_index_t = 4, index_t_bytes = le_bytes, bytes_index_t = bytes_le,
      sizeof_len = 4, len_bytes = (\<lambda>n. le_bytes (of_nat n)), bytes_len = (\<lambda>bytes. unat (bytes_le bytes))\<rparr>"

definition empty_Model :: "'r Model" where
  "empty_Model =
     \<lparr>m_score_func = [], m_loss_func = [], m_num_feat = 0, m_num_field = 0, m_num_K = 0,
      m_param_num_w = 0, m_param_w = []\<rparr>"

subsection \<open>The contents of a fresh buffer\<close>

text \<open>
  The state of the engine after \<open>t\<close> draws, and the slots the loops of the linear variant
  and of the factorization machine write: slot \<open>k\<close> of the linear variant is \<open>0\<close> when \<open>k\<close>
  is even and \<open>1.0\<close> when it is odd; slot \<open>k\<close> of the factorization machine is the scaled
  draw number \<open>k div 2\<close> when \<open>k\<close> is even and \<open>1.0\<close> when it is odd.
\<close>

definition engine_after :: "('r, 'g) platform \<Rightarrow> nat \<Rightarrow> 'g \<Rightarrow> 'g" where
  "engine_after P t g = ((\<lambda>x. snd (dis P x)) ^^ t) g"

definition linear_slot :: "('r, 'g) platform \<Rightarrow> nat \<Rightarrow> 'r option" where
  "linear_slot P k = (if even k then Some (r_zero P) else Some (r_one P))"

definition fm_slot :: "('r, 'g) platform \<Rightarrow> index_t \<Rightarrow> 'g \<Rightarrow> nat \<Rightarrow> 'r option" where
  "fm_slot P nK g k =
     (if even k then Some (r_mult P (inv_sqrt P nK) (fst (dis P (engine_after P (k div 2) g))))
      else Some (r_one P))"

text \<open>
  The field-aware variant writes groups of \<open>2 * kAlign = 8\<close> slots: \<open>kAlign\<close> weights followed
  by their \<open>kAlign\<close> accumulators. With \<open>q\<close> groups in the block of one (feature, field)
  pair, slot \<open>i\<close> is in group \<open>i div 8\<close>, which is group \<open>(i div 8) mod q\<close> of its block; a slot
  with \<open>i mod 8 < 4\<close> is the weight of the factor position \<open>4 * ((i div 8) mod q) + i mod 8\<close>,
  a slot with \<open>i mod 8 \<ge> 4\<close> is an accumulator. \<open>ffm_slot_ok\<close> is what holds of slot \<open>i\<close> after
  initialization: a weight has been written, and is \<open>0\<close> at a position from \<open>num_K_\<close> on; an
  accumulator is \<open>1.0\<close>.
\<close>

definition ffm_slot_ok :: "('r, 'g) platform \<Rightarrow> index_t \<Rightarrow> nat \<Rightarrow> nat \<Rightarrow> 'r option \<Rightarrow> bool" where
  "ffm_slot_ok P nK q i c \<longleftrightarrow>
     (if i mod 8 < 4
      then c \<noteq> None \<and> (unat nK \<le> 4 * ((i div 8) mod q) + i mod 8 \<longrightarrow> c = Some (r_zero P))
      else c = Some (r_one P))"

text \<open>
  The index of the weight of factor position \<open>d\<close> of feature \<open>j\<close> and field \<open>f\<close>, in a buffer
  whose blocks hold \<open>k_aligned\<close> weights; its accumulator is \<open>kAlign\<close> slots further.
\<close>

definition ffm_weight_index :: "nat \<Rightarrow> nat \<Rightarrow> nat \<Rightarrow> nat \<Rightarrow> nat \<Rightarrow> nat" where
  "ffm_weight_index nfield k_aligned j f d =
     (j * nfield + f) * (2 * k_aligned) + 2 * unat kAlign * (d div unat kAlign) + d mod unat kAlign"

text \<open>
  The spec's formulas for the number of slots (section 4.1), in exact arithmetic on natural
  numbers: \<open>features * 2\<close>, \<open>features * factors * 2\<close> and
  \<open>features * paddedFactors * fields * 2\<close>.
\<close>

definition computeSlotCount :: "string \<Rightarrow> nat \<Rightarrow> nat \<Rightarrow> nat \<Rightarrow> nat" where
  "computeSlotCount variant nfeatures nfields nfactors =
     (if variant = ''linear'' then nfeatures * 2
      else if variant = ''fm'' then nfeatures * nfactors * 2
      else if variant = ''ffm'' then nfeatures * roundUpToAlignment nfactors (unat kAlign) * nfields * 2
      else 0)"

section \<open>Properties\<close>

subsection \<open>The loops of the linear variant and of the factorization machine\<close>

lemma unat_plus_two: "unat (i :: index_t) + 2 \<le> unat (n :: index_t) \<Longrightarrow> unat (i + 2) = unat i + 2"
  using unsigned_less [of n, where ?'a = nat] by (simp add: unat_word_ariths)

lemma take_update_two:
  "i + 2 \<le> length w \<Longrightarrow> take (i + 2) (w[i := a, i + 1 := b]) = take i w @ [a, b]"
  by (intro nth_equalityI) (auto simp: nth_append nth_list_update less_Suc_eq numeral_2_eq_2)

lemma fm_slot_shift:
  "fm_slot P nK (snd (dis P g)) k = fm_slot P nK g (k + 2)"
proof -
  have "engine_after P t (snd (dis P g)) = snd (dis P (engine_after P t g))" for t
    unfolding engine_after_def by (rule funpow_swap1 [symmetric])
  moreover have "engine_after P (Suc t) g = snd (dis P (engine_after P t g))" for t
    by (simp add: engine_after_def)
  ultimately show ?thesis
    by (simp add: fm_slot_def)
qed

lemma fm_loop_run:
  assumes "even (unat n)" and "even (unat i)" and "i \<le> n" and "length w = unat n"
  shows "fm_loop P nK i n g w =
    Some (Inr (take (unat i) w @ map (\<lambda>k. fm_slot P nK g (k - unat i)) [unat i..<unat n]))"
  using assms
proof (induction "unat n - unat i" arbitrary: i w g rule: less_induct)
  case less
  show ?case
  proof (cases "i < n")
    case False
    with less.prems have "i = n" by simp
    with less.prems show ?thesis
      by (simp add: fm_loop.simps [of P nK n n g w])
  next
    case True
    then have lt: "unat i < unat n"
      by (simp add: word_less_nat_alt)
    with less.prems have le2: "unat i + 2 \<le> unat n"
      by presburger
    have u1: "unat (i + 1) = unat i + 1"
      using True by (rule unat_plus_one)
    have u2: "unat (i + 2) = unat i + 2"
      using le2 by (rule unat_plus_two)
    let ?v = "Some (r_mult P (inv_sqrt P nK) (fst (dis P g)))"
    let ?g1 = "snd (dis P g)"
    let ?w2 = "w[unat i := ?v, unat i + 1 := Some (r_one P)]"
    have step: "fm_loop P nK i n g w = fm_loop P nK (i + 2) n ?g1 ?w2"
      using True le2 less.prems(4)
      by (subst fm_loop.simps) (simp add: store_def u1 split: prod.splits)
    have le: "i + 2 \<le> n"
      using le2 u2 by (simp add: word_le_nat_alt)
    have "fm_loop P nK (i + 2) n ?g1 ?w2 =
      Some (Inr (take (unat (i + 2)) ?w2 @
        map (\<lambda>k. fm_slot P nK ?g1 (k - unat (i + 2))) [unat (i + 2)..<unat n]))"
      using less.prems le2 u2 le
      by (intro less.hyps) simp_all
    moreover have "take (unat i + 2) ?w2 = take (unat i) w @ [?v, Some (r_one P)]"
      using le2 less.prems(4) by (intro take_update_two) simp
    moreover have "[unat i..<unat n] = unat i # (unat i + 1) # [unat i + 2..<unat n]"
      using le2 by (simp add: upt_conv_Cons)
    moreover have "map (\<lambda>k. fm_slot P nK ?g1 (k - (unat i + 2))) [unat i + 2..<unat n] =
        map (\<lambda>k. fm_slot P nK g (k - unat i)) [unat i + 2..<unat n]"
    proof (rule map_cong [OF refl])
      fix k
      assume "k \<in> set [unat i + 2..<unat n]"
      then have "k - (unat i + 2) + 2 = k - unat i"
        by auto
      then show "fm_slot P nK ?g1 (k - (unat i + 2)) = fm_slot P nK g (k - unat i)"
        by (metis fm_slot_shift)
    qed
    moreover have "fm_slot P nK g 0 = ?v" and "fm_slot P nK g (Suc 0) = Some (r_one P)"
      by (simp_all add: fm_slot_def engine_after_def)
    ultimately show ?thesis
      using step u2 by simp
  qed
qed

lemma linear_loop_run:
  assumes "even (unat n)" and "even (unat i)" and "i \<le> n" and "length w = unat n"
  shows "linear_loop P i n w = Some (Inr (take (unat i) w @ map (linear_slot P) [unat i..<unat n]))"
  using assms
proof (induction "unat n - unat i" arbitrary: i w rule: less_induct)
  case less
  show ?case
  proof (cases "i < n")
    case False
    with less.prems have "i = n" by simp
    with less.prems show ?thesis
      by (simp add: linear_loop.simps [of P n n w])
  next
    case True
    then have lt: "unat i < unat n"
      by (simp add: word_less_nat_alt)
    with less.prems have le2: "unat i + 2 \<le> unat n"
      by presburger
    have u1: "unat (i + 1) = unat i + 1"
      using True by (rule unat_plus_one)
    have u2: "unat (i + 2) = unat i + 2"
      using le2 by (rule unat_plus_two)
    let ?w2 = "w[unat i := Some (r_zero P), unat i + 1 := Some (r_one P)]"
    have step: "linear_loop P i n w = linear_loop P (i + 2) n ?w2"
      using True le2 less.prems(4)
      by (subst linear_loop.simps) (simp add: store_def u1)
    have le: "i + 2 \<le> n"
      using le2 u2 by (simp add: word_le_nat_alt)
    have "linear_loop P (i + 2) n ?w2 =
      Some (Inr (take (unat (i + 2)) ?w2 @ map (linear_slot P) [unat (i + 2)..<unat n]))"
      using less.prems le2 u2 le
      by (intro less.hyps) simp_all
    moreover have "take (unat i + 2) ?w2 = take (unat i) w @ [Some (r_zero P), Some (r_one P)]"
      using le2 less.prems(4) by (intro take_update_two) simp
    moreover have "[unat i..<unat n] = unat i # (unat i + 1) # [unat i + 2..<unat n]"
      using le2 by (simp add: upt_conv_Cons)
    ultimately show ?thesis
      using step u2 less.prems(2) by (simp add: linear_slot_def)
  qed
qed

subsection \<open>The loops of the field-aware variant\<close>

lemma ffm_s_loop_step:
  "s < kAlign \<Longrightarrow> w + 4 < length buf \<Longrightarrow>
   ffm_s_loop P nK coef s d w g buf =
     ffm_s_loop P nK coef (s + 1) (d + 1) (w + 1) (snd (ffm_weight P nK coef d g))
       (buf[w := Some (fst (ffm_weight P nK coef d g)), w + 4 := Some (r_one P)])"
  by (subst ffm_s_loop.simps) (simp add: store_def kAlign_def split: prod.splits del: ffm_s_loop.simps)

lemma ffm_s_loop_stop:
  "\<not> s < kAlign \<Longrightarrow> ffm_s_loop P nK coef s d w g buf = Inr (d, w, g, buf)"
  by (subst ffm_s_loop.simps) simp

lemma ffm_s_loop_fail:
  "s < kAlign \<Longrightarrow> \<not> w + 4 < length buf \<Longrightarrow> ffm_s_loop P nK coef s d w g buf = Inl OutOfBounds"
  by (subst ffm_s_loop.simps) (simp add: store_def kAlign_def split: prod.splits del: ffm_s_loop.simps)

lemma ffm_s_loop_ok:
  assumes "w + 8 \<le> length buf"
  shows "ffm_s_loop P nK coef 0 d w g buf =
    (let x0 = ffm_weight P nK coef d g;
         x1 = ffm_weight P nK coef (d + 1) (snd x0);
         x2 = ffm_weight P nK coef (d + 2) (snd x1);
         x3 = ffm_weight P nK coef (d + 3) (snd x2)
     in Inr (d + 4, w + 4, snd x3,
          buf[w := Some (fst x0), w + 4 := Some (r_one P),
              w + 1 := Some (fst x1), w + 5 := Some (r_one P),
              w + 2 := Some (fst x2), w + 6 := Some (r_one P),
              w + 3 := Some (fst x3), w + 7 := Some (r_one P)]))"
proof -
  have k: "(0 :: index_t) < kAlign" "(1 :: index_t) < kAlign" "(2 :: index_t) < kAlign"
    "(3 :: index_t) < kAlign" "\<not> (4 :: index_t) < kAlign"
    by (simp_all add: kAlign_def)
  show ?thesis
    using assms
    by (simp add: ffm_s_loop_step [of 0] ffm_s_loop_step [of 1] ffm_s_loop_step [of 2]
        ffm_s_loop_step [of 3] ffm_s_loop_stop [of 4] k Let_def eval_nat_numeral
        add.commute [of 2 d] add.commute [of 3 d] add.commute [of 4 d]
        del: ffm_s_loop.simps)
qed

lemma ffm_s_loop_oob:
  assumes "\<not> w + 8 \<le> length buf"
  shows "ffm_s_loop P nK coef 0 d w g buf = Inl OutOfBounds"
proof -
  have k: "(0 :: index_t) < kAlign" "(1 :: index_t) < kAlign" "(2 :: index_t) < kAlign"
    "(3 :: index_t) < kAlign" "\<not> (4 :: index_t) < kAlign"
    by (simp_all add: kAlign_def)
  show ?thesis
  proof (cases "w + 4 < length buf")
    case False
    then show ?thesis by (simp add: ffm_s_loop_fail k del: ffm_s_loop.simps)
  next
    case a: True
    show ?thesis
    proof (cases "w + 5 < length buf")
      case False
      with a show ?thesis
        by (simp add: ffm_s_loop_step [of 0] ffm_s_loop_fail [of 1] k del: ffm_s_loop.simps)
    next
      case b: True
      show ?thesis
      proof (cases "w + 6 < length buf")
        case False
        with a b show ?thesis
          by (simp add: ffm_s_loop_step [of 0] ffm_s_loop_step [of 1] ffm_s_loop_fail [of 2] k
              del: ffm_s_loop.simps)
      next
        case c: True
        with a b assms show ?thesis
          by (simp add: ffm_s_loop_step [of 0] ffm_s_loop_step [of 1] ffm_s_loop_step [of 2]
              ffm_s_loop_fail [of 3] k del: ffm_s_loop.simps)
      qed
    qed
  qed
qed


lemma ffm_weight_padding:
  assumes "unat nK \<le> unat d + r" and "unat d + r < 2 ^ 32"
  shows "fst (ffm_weight P nK coef (d + of_nat r) g) = r_zero P"
proof -
  have "unat (d + of_nat r) = unat d + r"
    using assms(2) by (simp add: unat_word_ariths unat_of_nat)
  with assms(1) have "\<not> d + of_nat r < nK"
    by (simp add: word_less_nat_alt)
  then show ?thesis
    by (simp add: ffm_weight_def)
qed

lemma ffm_s_loop_slots:
  assumes run: "ffm_s_loop P nK coef 0 d w g buf = Inr (d1, w1, g1, buf1)"
    and d: "unat d + 3 < 2 ^ 32"
  shows "d1 = d + 4" and "w1 = w + 4" and "length buf1 = length buf" and "w + 8 \<le> length buf"
    and "\<And>i. i < w \<Longrightarrow> buf1 ! i = buf ! i"
    and "\<And>r. r < 4 \<Longrightarrow> buf1 ! (w + 4 + r) = Some (r_one P)"
    and "\<And>r. r < 4 \<Longrightarrow> buf1 ! (w + r) \<noteq> None"
    and "\<And>r. r < 4 \<Longrightarrow> unat nK \<le> unat d + r \<Longrightarrow> buf1 ! (w + r) = Some (r_zero P)"
proof -
  show len: "w + 8 \<le> length buf"
    using run ffm_s_loop_oob [of w buf P nK coef d g] by (cases "w + 8 \<le> length buf") simp_all
  note ok = ffm_s_loop_ok [OF len, of P nK coef d g, unfolded Let_def run]
  from ok show "d1 = d + 4" and "w1 = w + 4" and "length buf1 = length buf"
    by simp_all
  from ok have buf1: "buf1 = buf[w := Some (fst (ffm_weight P nK coef d g)), w + 4 := Some (r_one P),
      w + 1 := Some (fst (ffm_weight P nK coef (d + 1) (snd (ffm_weight P nK coef d g)))),
      w + 5 := Some (r_one P),
      w + 2 := Some (fst (ffm_weight P nK coef (d + 2)
          (snd (ffm_weight P nK coef (d + 1) (snd (ffm_weight P nK coef d g)))))),
      w + 6 := Some (r_one P),
      w + 3 := Some (fst (ffm_weight P nK coef (d + 3)
          (snd (ffm_weight P nK coef (d + 2)
            (snd (ffm_weight P nK coef (d + 1) (snd (ffm_weight P nK coef d g)))))))),
      w + 7 := Some (r_one P)]"
    by simp
  show "buf1 ! i = buf ! i" if "i < w" for i
    using that by (simp add: buf1)
  have cases4: "r = 0 \<or> r = 1 \<or> r = 2 \<or> r = 3" if "r < 4" for r :: nat
    using that by arith
  show "buf1 ! (w + 4 + r) = Some (r_one P)" if "r < 4" for r
    using cases4 [OF that] len by (auto simp: buf1 nth_list_update eval_nat_numeral)
  show "buf1 ! (w + r) \<noteq> None" if "r < 4" for r
    using cases4 [OF that] len by (auto simp: buf1 nth_list_update eval_nat_numeral)
  show "buf1 ! (w + r) = Some (r_zero P)" if "r < 4" and "unat nK \<le> unat d + r" for r
  proof -
    have z: "fst (ffm_weight P nK coef (d + of_nat r) g') = r_zero P" for g'
      using that d by (intro ffm_weight_padding) simp_all
    let ?g1 = "snd (ffm_weight P nK coef d g)"
    let ?g2 = "snd (ffm_weight P nK coef (d + 1) ?g1)"
    let ?g3 = "snd (ffm_weight P nK coef (d + 2) ?g2)"
    from z [of g] z [of ?g1] z [of ?g2] z [of ?g3]
    show ?thesis
      using cases4 [OF that(1)] len by (auto simp: buf1 nth_list_update eval_nat_numeral)
  qed
qed


lemma ffm_slot_ok_new:
  assumes "c < q" and "r < 8"
    and "r < 4 \<Longrightarrow> x \<noteq> None \<and> (unat nK \<le> 4 * c + r \<longrightarrow> x = Some (r_zero P))"
    and "4 \<le> r \<Longrightarrow> x = Some (r_one P)"
  shows "ffm_slot_ok P nK q (8 * (b * q + c) + r) x"
proof -
  have m: "(8 * k + r) mod 8 = r" "(8 * k + r) div 8 = k" for k
    using assms(2) by simp_all
  have "(b * q + c) mod q = c"
    using assms(1) by simp
  then show ?thesis
    unfolding ffm_slot_ok_def m [of "b * q + c"] using assms(3,4) by simp
qed

lemma ffm_d_loop_inv:
  assumes "ffm_d_loop P nK coef kal d w g buf = Inr (w', g', buf')"
    and "unat kal = 4 * q" and "unat d = 4 * c" and "c \<le> q" and "w = 8 * (b * q + c)"
    and "\<forall>i<w. ffm_slot_ok P nK q i (buf ! i)"
  shows "w' = 8 * (b * q + q) \<and> length buf' = length buf \<and> (c < q \<longrightarrow> w' \<le> length buf) \<and>
    (\<forall>i<w'. ffm_slot_ok P nK q i (buf' ! i))"
  using assms
proof (induction "q - c" arbitrary: c d w g buf rule: less_induct)
  case less
  show ?case
  proof (cases "d < kal")
    case False
    with less.prems(2,3,4) have "c = q"
      by (simp add: word_less_nat_alt)
    moreover from False less.prems(1) have "w' = w" and "buf' = buf"
      by (simp_all add: ffm_d_loop.simps [of P nK coef kal d w g buf])
    ultimately show ?thesis
      using less.prems(5,6) by simp
  next
    case True
    with less.prems(2,3) have cq: "c < q"
      by (simp add: word_less_nat_alt)
    have bound: "unat d + 4 < 2 ^ 32"
      using unsigned_less [of kal, where ?'a = nat] less.prems(2,3) cq by simp
    obtain d1 w1 g1 buf1 where s: "ffm_s_loop P nK coef 0 d w g buf = Inr (d1, w1, g1, buf1)"
      using less.prems(1) True
      by (cases "ffm_s_loop P nK coef 0 d w g buf")
        (auto simp: ffm_d_loop.simps [of P nK coef kal d w g buf])
    have bound3: "unat d + 3 < 2 ^ 32"
      using bound by simp
    note sl = ffm_s_loop_slots [OF s bound3]
    have "ffm_d_loop P nK coef kal d w g buf = ffm_d_loop P nK coef kal d1 (w1 + unat kAlign) g1 buf1"
      using True s by (simp add: ffm_d_loop.simps [of P nK coef kal d w g buf])
    moreover have "w1 + unat kAlign = w + 8"
      using sl(2) by (simp add: kAlign_def)
    ultimately have rec: "ffm_d_loop P nK coef kal (d + 4) (w + 8) g1 buf1 = Inr (w', g', buf')"
      using less.prems(1) sl(1) by simp
    have d4: "unat (d + 4) = 4 * (c + 1)"
      using bound less.prems(3) by (simp add: unat_word_ariths)
    have w8: "w + 8 = 8 * (b * q + (c + 1))"
      using less.prems(5) by simp
    have pre: "\<forall>i<w + 8. ffm_slot_ok P nK q i (buf1 ! i)"
    proof (intro allI impI)
      fix i assume i: "i < w + 8"
      show "ffm_slot_ok P nK q i (buf1 ! i)"
      proof (cases "i < w")
        case True
        with less.prems(6) sl(5) show ?thesis by simp
      next
        case False
        define r where "r = i - w"
        with False i have r: "r < 8" and ir: "i = 8 * (b * q + c) + r"
          using less.prems(5) by simp_all
        have "ffm_slot_ok P nK q (8 * (b * q + c) + r) (buf1 ! i)"
        proof (rule ffm_slot_ok_new [OF cq r])
          assume "r < 4"
          with sl(7) [of r] sl(8) [of r] less.prems(3,5) ir
          show "buf1 ! i \<noteq> None \<and> (unat nK \<le> 4 * c + r \<longrightarrow> buf1 ! i = Some (r_zero P))"
            by simp
        next
          assume "4 \<le> r"
          with r False have "r - 4 < 4" and "w + 4 + (r - 4) = i"
            by (simp_all add: r_def)
          with sl(6) [of "r - 4"] show "buf1 ! i = Some (r_one P)"
            by simp
        qed
        with ir show ?thesis by simp
      qed
    qed
    have "w' = 8 * (b * q + q) \<and> length buf' = length buf1 \<and> (c + 1 < q \<longrightarrow> w' \<le> length buf1) \<and>
      (\<forall>i<w'. ffm_slot_ok P nK q i (buf' ! i))"
      using cq
      by (intro less.hyps [OF _ rec less.prems(2) d4 _ w8 pre]) simp_all
    moreover have "w' \<le> length buf"
    proof (cases "c + 1 < q")
      case True
      with calculation sl(3) show ?thesis by simp
    next
      case False
      with cq have "c + 1 = q" by simp
      with calculation w8 sl(4) show ?thesis by simp
    qed
    ultimately show ?thesis
      using sl(3) by simp
  qed
qed


lemma ffm_f_loop_inv:
  assumes "ffm_f_loop P nK coef kal nfield f w g buf = Inr (w', g', buf')"
    and "unat kal = 4 * q" and "f \<le> nfield" and "w = 8 * ((b0 + unat f) * q)"
    and "\<forall>i<w. ffm_slot_ok P nK q i (buf ! i)" and "w \<le> length buf"
  shows "w' = 8 * ((b0 + unat nfield) * q) \<and> length buf' = length buf \<and> w' \<le> length buf \<and>
    (\<forall>i<w'. ffm_slot_ok P nK q i (buf' ! i))"
  using assms
proof (induction "unat nfield - unat f" arbitrary: f w g buf rule: less_induct)
  case less
  show ?case
  proof (cases "f < nfield")
    case False
    with less.prems(3) have "f = nfield"
      by simp
    moreover from False less.prems(1) have "w' = w" and "buf' = buf"
      by (simp_all add: ffm_f_loop.simps [of P nK coef kal nfield f w g buf])
    ultimately show ?thesis
      using less.prems(4,5,6) by simp
  next
    case True
    obtain w1 g1 buf1 where d: "ffm_d_loop P nK coef kal 0 w g buf = Inr (w1, g1, buf1)"
      using less.prems(1) True
      by (cases "ffm_d_loop P nK coef kal 0 w g buf")
        (auto simp: ffm_f_loop.simps [of P nK coef kal nfield f w g buf])
    have rec: "ffm_f_loop P nK coef kal nfield (f + 1) w1 g1 buf1 = Inr (w', g', buf')"
      using less.prems(1) True d
      by (simp add: ffm_f_loop.simps [of P nK coef kal nfield f w g buf])
    have w0: "w = 8 * ((b0 + unat f) * q + 0)"
      using less.prems(4) by simp
    have inv: "w1 = 8 * ((b0 + unat f) * q + q) \<and> length buf1 = length buf \<and>
      (0 < q \<longrightarrow> w1 \<le> length buf) \<and> (\<forall>i<w1. ffm_slot_ok P nK q i (buf1 ! i))"
      using less.prems(5)
      by (intro ffm_d_loop_inv [OF d less.prems(2) _ _ w0]) simp_all
    have f1: "unat (f + 1) = unat f + 1"
      using True by (rule unat_plus_one)
    have le: "f + 1 \<le> nfield"
      using True f1 by (simp add: word_le_nat_alt word_less_nat_alt)
    have w1: "w1 = 8 * ((b0 + unat (f + 1)) * q)"
      using inv f1 by (simp add: algebra_simps)
    have w1le: "w1 \<le> length buf1"
      using inv by (cases "q = 0") simp_all
    have "w' = 8 * ((b0 + unat nfield) * q) \<and> length buf' = length buf1 \<and> w' \<le> length buf1 \<and>
      (\<forall>i<w'. ffm_slot_ok P nK q i (buf' ! i))"
      using True f1 inv
      by (intro less.hyps [OF _ rec less.prems(2) le w1 _ w1le]) (simp_all add: word_less_nat_alt)
    with inv show ?thesis
      by simp
  qed
qed

lemma ffm_j_loop_inv:
  assumes "ffm_j_loop P nK coef kal nfield nfeat j w g buf = Inr (w', g', buf')"
    and "unat kal = 4 * q" and "j \<le> nfeat" and "w = 8 * ((unat j * unat nfield) * q)"
    and "\<forall>i<w. ffm_slot_ok P nK q i (buf ! i)" and "w \<le> length buf"
  shows "w' = 8 * ((unat nfeat * unat nfield) * q) \<and> length buf' = length buf \<and> w' \<le> length buf \<and>
    (\<forall>i<w'. ffm_slot_ok P nK q i (buf' ! i))"
  using assms
proof (induction "unat nfeat - unat j" arbitrary: j w g buf rule: less_induct)
  case less
  show ?case
  proof (cases "j < nfeat")
    case False
    with less.prems(3) have "j = nfeat"
      by simp
    moreover from False less.prems(1) have "w' = w" and "buf' = buf"
      by (simp_all add: ffm_j_loop.simps [of P nK coef kal nfield nfeat j w g buf])
    ultimately show ?thesis
      using less.prems(4,5,6) by simp
  next
    case True
    obtain w1 g1 buf1 where f: "ffm_f_loop P nK coef kal nfield 0 w g buf = Inr (w1, g1, buf1)"
      using less.prems(1) True
      by (cases "ffm_f_loop P nK coef kal nfield 0 w g buf")
        (auto simp: ffm_j_loop.simps [of P nK coef kal nfield nfeat j w g buf])
    have rec: "ffm_j_loop P nK coef kal nfield nfeat (j + 1) w1 g1 buf1 = Inr (w', g', buf')"
      using less.prems(1) True f
      by (simp add: ffm_j_loop.simps [of P nK coef kal nfield nfeat j w g buf])
    have w0: "w = 8 * ((unat j * unat nfield + unat (0 :: index_t)) * q)"
      using less.prems(4) by simp
    have inv: "w1 = 8 * ((unat j * unat nfield + unat nfield) * q) \<and> length buf1 = length buf \<and>
      w1 \<le> length buf \<and> (\<forall>i<w1. ffm_slot_ok P nK q i (buf1 ! i))"
      using less.prems(5,6)
      by (intro ffm_f_loop_inv [OF f less.prems(2) _ w0]) simp_all
    have j1: "unat (j + 1) = unat j + 1"
      using True by (rule unat_plus_one)
    have le: "j + 1 \<le> nfeat"
      using True j1 by (simp add: word_le_nat_alt word_less_nat_alt)
    have w1: "w1 = 8 * ((unat (j + 1) * unat nfield) * q)"
      using inv j1 by (simp add: algebra_simps)
    have w1le: "w1 \<le> length buf1"
      using inv by simp
    have "w' = 8 * ((unat nfeat * unat nfield) * q) \<and> length buf' = length buf1 \<and> w' \<le> length buf1 \<and>
      (\<forall>i<w'. ffm_slot_ok P nK q i (buf' ! i))"
      using True j1 inv
      by (intro less.hyps [OF _ rec less.prems(2) le w1 _ w1le]) (simp_all add: word_less_nat_alt)
    with inv show ?thesis
      by simp
  qed
qed

lemma ffm_d_loop_total:
  assumes "unat kal = 4 * q" and "unat d = 4 * c" and "c \<le> q" and "w + 8 * (q - c) \<le> length buf"
  shows "\<exists>w' g' buf'. ffm_d_loop P nK coef kal d w g buf = Inr (w', g', buf')"
  using assms
proof (induction "q - c" arbitrary: c d w g buf rule: less_induct)
  case less
  show ?case
  proof (cases "d < kal")
    case False
    then show ?thesis
      by (simp add: ffm_d_loop.simps [of P nK coef kal d w g buf])
  next
    case True
    with less.prems(1,2) have cq: "c < q"
      by (simp add: word_less_nat_alt)
    have bound: "unat d + 4 < 2 ^ 32"
      using unsigned_less [of kal, where ?'a = nat] less.prems(1,2) cq by simp
    have len: "w + 8 \<le> length buf"
      using less.prems(4) cq by simp
    obtain g1 buf1 where s: "ffm_s_loop P nK coef 0 d w g buf = Inr (d + 4, w + 4, g1, buf1)"
      and l1: "length buf1 = length buf"
      using ffm_s_loop_ok [OF len, of P nK coef d g] by (simp add: Let_def)
    have "ffm_d_loop P nK coef kal d w g buf =
        ffm_d_loop P nK coef kal (d + 4) (w + 4 + unat kAlign) g1 buf1"
      using True s by (simp add: ffm_d_loop.simps [of P nK coef kal d w g buf])
    moreover have "w + 4 + unat kAlign = w + 8"
      by (simp add: kAlign_def)
    ultimately have step: "ffm_d_loop P nK coef kal d w g buf =
        ffm_d_loop P nK coef kal (d + 4) (w + 8) g1 buf1"
      by simp
    have d4: "unat (d + 4) = 4 * (c + 1)"
      using bound less.prems(2) by (simp add: unat_word_ariths)
    have "\<exists>w' g' buf'. ffm_d_loop P nK coef kal (d + 4) (w + 8) g1 buf1 = Inr (w', g', buf')"
      using cq less.prems(4) l1
      by (intro less.hyps [OF _ less.prems(1) d4]) simp_all
    with step show ?thesis
      by simp
  qed
qed

lemma ffm_f_loop_total:
  assumes "unat kal = 4 * q" and "f \<le> nfield" and "w = 8 * ((b0 + unat f) * q)"
    and "\<forall>i<w. ffm_slot_ok P nK q i (buf ! i)" and "8 * ((b0 + unat nfield) * q) \<le> length buf"
  shows "\<exists>w' g' buf'. ffm_f_loop P nK coef kal nfield f w g buf = Inr (w', g', buf')"
  using assms
proof (induction "unat nfield - unat f" arbitrary: f w g buf rule: less_induct)
  case less
  show ?case
  proof (cases "f < nfield")
    case False
    then show ?thesis
      by (simp add: ffm_f_loop.simps [of P nK coef kal nfield f w g buf])
  next
    case True
    then have lt: "unat f < unat nfield"
      by (simp add: word_less_nat_alt)
    have f1: "unat (f + 1) = unat f + 1"
      using True by (rule unat_plus_one)
    have le: "f + 1 \<le> nfield"
      using lt f1 by (simp add: word_le_nat_alt)
    have "(b0 + unat f + 1) * q \<le> (b0 + unat nfield) * q"
      using lt by (intro mult_le_mono1) simp
    then have "(b0 + unat f) * q + q \<le> (b0 + unat nfield) * q"
      by (simp add: algebra_simps)
    with less.prems(3,5) have space: "w + 8 * (q - 0) \<le> length buf"
      by simp
    have "\<exists>w' g' buf'. ffm_d_loop P nK coef kal 0 w g buf = Inr (w', g', buf')"
      by (rule ffm_d_loop_total [OF less.prems(1) _ _ space]) simp_all
    then obtain w1 g1 buf1 where d: "ffm_d_loop P nK coef kal 0 w g buf = Inr (w1, g1, buf1)"
      by blast
    have w0: "w = 8 * ((b0 + unat f) * q + 0)"
      using less.prems(3) by simp
    have inv: "w1 = 8 * ((b0 + unat f) * q + q) \<and> length buf1 = length buf \<and>
      (0 < q \<longrightarrow> w1 \<le> length buf) \<and> (\<forall>i<w1. ffm_slot_ok P nK q i (buf1 ! i))"
      using less.prems(4)
      by (intro ffm_d_loop_inv [OF d less.prems(1) _ _ w0]) simp_all
    have step: "ffm_f_loop P nK coef kal nfield f w g buf = ffm_f_loop P nK coef kal nfield (f + 1) w1 g1 buf1"
      using True d by (simp add: ffm_f_loop.simps [of P nK coef kal nfield f w g buf])
    have w1: "w1 = 8 * ((b0 + unat (f + 1)) * q)"
      using inv f1 by (simp add: algebra_simps)
    have "\<exists>w' g' buf'. ffm_f_loop P nK coef kal nfield (f + 1) w1 g1 buf1 = Inr (w', g', buf')"
      using lt f1 inv less.prems(5)
      by (intro less.hyps [OF _ less.prems(1) le w1]) simp_all
    with step show ?thesis
      by simp
  qed
qed

lemma ffm_j_loop_total:
  assumes "unat kal = 4 * q" and "j \<le> nfeat" and "w = 8 * ((unat j * unat nfield) * q)"
    and "\<forall>i<w. ffm_slot_ok P nK q i (buf ! i)" and "8 * ((unat nfeat * unat nfield) * q) \<le> length buf"
  shows "\<exists>w' g' buf'. ffm_j_loop P nK coef kal nfield nfeat j w g buf = Inr (w', g', buf')"
  using assms
proof (induction "unat nfeat - unat j" arbitrary: j w g buf rule: less_induct)
  case less
  show ?case
  proof (cases "j < nfeat")
    case False
    then show ?thesis
      by (simp add: ffm_j_loop.simps [of P nK coef kal nfield nfeat j w g buf])
  next
    case True
    then have lt: "unat j < unat nfeat"
      by (simp add: word_less_nat_alt)
    have j1: "unat (j + 1) = unat j + 1"
      using True by (rule unat_plus_one)
    have le: "j + 1 \<le> nfeat"
      using lt j1 by (simp add: word_le_nat_alt)
    have "(unat j + 1) * unat nfield * q \<le> unat nfeat * unat nfield * q"
      using lt by (intro mult_le_mono1) simp
    with less.prems(5) have space: "8 * ((unat j * unat nfield + unat nfield) * q) \<le> length buf"
      by (simp add: algebra_simps)
    have w0: "w = 8 * ((unat j * unat nfield + unat (0 :: index_t)) * q)"
      using less.prems(3) by simp
    have "\<exists>w' g' buf'. ffm_f_loop P nK coef kal nfield 0 w g buf = Inr (w', g', buf')"
      by (rule ffm_f_loop_total [OF less.prems(1) _ w0 less.prems(4) space]) simp
    then obtain w1 g1 buf1 where f: "ffm_f_loop P nK coef kal nfield 0 w g buf = Inr (w1, g1, buf1)"
      by blast
    have wle: "w \<le> length buf"
      using space less.prems(3) by (simp add: algebra_simps)
    have inv: "w1 = 8 * ((unat j * unat nfield + unat nfield) * q) \<and> length buf1 = length buf \<and>
      w1 \<le> length buf \<and> (\<forall>i<w1. ffm_slot_ok P nK q i (buf1 ! i))"
      using less.prems(4) wle
      by (intro ffm_f_loop_inv [OF f less.prems(1) _ w0]) simp_all
    have step: "ffm_j_loop P nK coef kal nfield nfeat j w g buf =
        ffm_j_loop P nK coef kal nfield nfeat (j + 1) w1 g1 buf1"
      using True f by (simp add: ffm_j_loop.simps [of P nK coef kal nfield nfeat j w g buf])
    have w1: "w1 = 8 * ((unat (j + 1) * unat nfield) * q)"
      using inv j1 by (simp add: algebra_simps)
    have "\<exists>w' g' buf'. ffm_j_loop P nK coef kal nfield nfeat (j + 1) w1 g1 buf1 = Inr (w', g', buf')"
      using lt j1 inv less.prems(5)
      by (intro less.hyps [OF _ less.prems(1) le w1]) simp_all
    with step show ?thesis
      by simp
  qed
qed

subsection \<open>Initialize\<close>

lemma even_unat_times_two: "even (unat (x * 2 :: index_t))"
  by (simp add: unat_word_ariths dvd_mod_iff)

lemma unat_aligned: "unat (get_aligned_k m) = 4 * (unat (get_aligned_k m) div 4)"
proof -
  define k where "k = roundUpToAlignment (unat (m_num_K m)) (unat kAlign)"
  have "4 dvd k"
    by (simp add: k_def roundUpToAlignment_def kAlign_def)
  then have "4 dvd k mod 2 ^ 32"
    by (simp add: dvd_mod)
  then show ?thesis
    by (simp add: get_aligned_k_def k_def [symmetric] unat_of_nat)
qed

lemma Initialize_linear:
  assumes "loss_func \<noteq> []" and "0 < num_feature"
  shows "Initialize P this ''linear'' loss_func num_feature num_field num_K h =
    Some (Inr (\<lparr>m_score_func = ''linear'', m_loss_func = loss_func, m_num_feat = num_feature,
                 m_num_field = num_field, m_num_K = num_K, m_param_num_w = num_feature * 2,
                 m_param_w = map (linear_slot P) [0..<unat (num_feature * 2)]\<rparr>,
               h @ [Malloc (unat (num_feature * 2) * sizeof_real_t P)]))"
proof -
  have "linear_loop P 0 (num_feature * 2) (replicate (unat (num_feature * 2)) None) =
      Some (Inr (map (linear_slot P) [0..<unat (num_feature * 2)]))"
    using linear_loop_run [of "num_feature * 2" 0 "replicate (unat (num_feature * 2)) None" P]
    by (simp add: even_unat_times_two)
  with assms show ?thesis
    by (simp add: Initialize_def Initialize_w_def)
qed

lemma Initialize_fm:
  assumes "loss_func \<noteq> []" and "0 < num_feature"
  shows "Initialize P this ''fm'' loss_func num_feature num_field num_K h =
    Some (Inr (\<lparr>m_score_func = ''fm'', m_loss_func = loss_func, m_num_feat = num_feature,
                 m_num_field = num_field, m_num_K = num_K, m_param_num_w = num_feature * num_K * 2,
                 m_param_w = map (fm_slot P num_K (default_random_engine P)) [0..<unat (num_feature * num_K * 2)]\<rparr>,
               h @ [Malloc (unat (num_feature * num_K * 2) * sizeof_real_t P)]))"
proof -
  have "fm_loop P num_K 0 (num_feature * num_K * 2) (default_random_engine P)
        (replicate (unat (num_feature * num_K * 2)) None) =
      Some (Inr (map (fm_slot P num_K (default_random_engine P)) [0..<unat (num_feature * num_K * 2)]))"
    using fm_loop_run [of "num_feature * num_K * 2" 0 "replicate (unat (num_feature * num_K * 2)) None"
        P num_K "default_random_engine P"]
    by (simp add: even_unat_times_two)
  with assms show ?thesis
    by (simp add: Initialize_def Initialize_w_def)
qed


lemma get_aligned_k_update [simp]: "get_aligned_k (this\<lparr>m_param_w := x\<rparr>) = get_aligned_k this"
  by (simp add: get_aligned_k_def)

lemma Initialize_w_ffm:
  "m_score_func this = ''ffm'' \<Longrightarrow>
   Initialize_w P this True h =
     (case ffm_j_loop P (m_num_K this) (inv_sqrt P (m_num_K this)) (get_aligned_k this)
             (m_num_field this) (m_num_feat this) 0 0 (default_random_engine P)
             (replicate (unat (m_param_num_w this)) None) of
        Inl e \<Rightarrow> Some (Inl (e, h @ [Memalign kAlignByte (unat (m_param_num_w this) * sizeof_real_t P)]))
      | Inr (w1, g1, buf) \<Rightarrow>
          Some (Inr (this\<lparr>m_param_w := buf\<rparr>,
                     h @ [Memalign kAlignByte (unat (m_param_num_w this) * sizeof_real_t P)])))"
  by (simp add: Initialize_w_def Let_def cong: sum.case_cong)

lemma unat_ffm_param_num:
  "unat (nf * kal * nfield * 2 :: index_t) = (8 * (unat nf * unat nfield * (unat kal div 4))) mod 2 ^ 32"
  if "unat kal = 4 * (unat kal div 4)"
proof -
  have "unat (nf * kal * nfield * 2) = (unat nf * unat kal * unat nfield * 2) mod 2 ^ 32"
    by (simp add: unat_word_ariths mod_simps)
  also have "unat nf * unat kal * unat nfield * 2 = 8 * (unat nf * unat nfield * (unat kal div 4))"
    by (subst that) simp
  finally show ?thesis .
qed

lemma get_aligned_k_eq: "get_aligned_k m = of_nat (((unat (m_num_K m) + 3) div 4) * 4)"
proof -
  have "roundUpToAlignment n (unat kAlign) = ((n + 3) div 4) * 4" for n
    by (simp add: roundUpToAlignment_def kAlign_def)
  then show ?thesis
    unfolding get_aligned_k_def by (simp only:)
qed

lemma Initialize_ffm:
  fixes num_K num_feature num_field :: index_t
  defines "kal \<equiv> of_nat (((unat num_K + 3) div 4) * 4) :: index_t"
  defines "n \<equiv> num_feature * kal * num_field * 2"
  assumes lf: "loss_func \<noteq> []" and nf: "0 < num_feature"
  shows "Initialize P this ''ffm'' loss_func num_feature num_field num_K h =
    (case ffm_j_loop P num_K (inv_sqrt P num_K) kal num_field num_feature 0 0
            (default_random_engine P) (replicate (unat n) None) of
       Inl e \<Rightarrow> Some (Inl (e, h @ [Memalign kAlignByte (unat n * sizeof_real_t P)]))
     | Inr (w1, g1, buf) \<Rightarrow>
         Some (Inr (\<lparr>m_score_func = ''ffm'', m_loss_func = loss_func, m_num_feat = num_feature,
                      m_num_field = num_field, m_num_K = num_K, m_param_num_w = n, m_param_w = buf\<rparr>,
                    h @ [Memalign kAlignByte (unat n * sizeof_real_t P)])))"
proof -
  define this1 where "this1 = this\<lparr>m_score_func := ''ffm'', m_loss_func := loss_func,
    m_num_feat := num_feature, m_num_field := num_field, m_num_K := num_K, m_param_num_w := n\<rparr>"
  have "Initialize P this ''ffm'' loss_func num_feature num_field num_K h = Initialize_w P this1 True h"
    using lf nf by (simp add: Initialize_def this1_def n_def kal_def Let_def get_aligned_k_eq)
  moreover have "m_score_func this1 = ''ffm''" and "m_num_K this1 = num_K" and "m_num_field this1 = num_field"
    and "m_num_feat this1 = num_feature" and "m_param_num_w this1 = n"
    and "get_aligned_k this1 = kal"
    and "this1\<lparr>m_param_w := buf\<rparr> = \<lparr>m_score_func = ''ffm'', m_loss_func = loss_func,
      m_num_feat = num_feature, m_num_field = num_field, m_num_K = num_K, m_param_num_w = n,
      m_param_w = buf\<rparr>" for buf
    by (simp_all add: this1_def get_aligned_k_eq kal_def)
  ultimately show ?thesis
    by (simp add: Initialize_w_ffm cong: sum.case_cong)
qed

lemma Initialize_ffm_result:
  assumes run: "Initialize P this ''ffm'' loss_func num_feature num_field num_K h = Some (Inr (m, h'))"
  shows "loss_func \<noteq> [] \<and> 0 < num_feature \<and>
    m = \<lparr>m_score_func = ''ffm'', m_loss_func = loss_func, m_num_feat = num_feature,
         m_num_field = num_field, m_num_K = num_K,
         m_param_num_w = num_feature * get_aligned_k m * num_field * 2,
         m_param_w = m_param_w m\<rparr> \<and>
    h' = h @ [Memalign kAlignByte (unat (m_param_num_w m) * sizeof_real_t P)] \<and>
    length (m_param_w m) = unat (m_param_num_w m) \<and>
    length (m_param_w m) =
      8 * (unat num_feature * unat num_field * (unat (get_aligned_k m) div 4)) \<and>
    (\<forall>i<length (m_param_w m).
       ffm_slot_ok P num_K (unat (get_aligned_k m) div 4) i (m_param_w m ! i))"
proof -
  from run have lf: "loss_func \<noteq> []" and nf: "0 < num_feature"
    by (auto simp: Initialize_def split: if_splits)
  define kal :: index_t where "kal = of_nat (((unat num_K + 3) div 4) * 4)"
  define n where "n = num_feature * kal * num_field * 2"
  define q where "q = unat kal div 4"
  define res where "res = ffm_j_loop P num_K (inv_sqrt P num_K) kal num_field num_feature 0 0
    (default_random_engine P) (replicate (unat n) None)"
  have kq: "unat kal = 4 * q"
    unfolding kal_def q_def using unat_aligned [of "\<lparr>m_score_func = [], m_loss_func = [], m_num_feat = 0,
      m_num_field = 0, m_num_K = num_K, m_param_num_w = 0, m_param_w = []\<rparr>"]
    by (simp add: get_aligned_k_eq)
  have eq: "Initialize P this ''ffm'' loss_func num_feature num_field num_K h =
    (case res of
       Inl e \<Rightarrow> Some (Inl (e, h @ [Memalign kAlignByte (unat n * sizeof_real_t P)]))
     | Inr (w1, g1, buf) \<Rightarrow>
         Some (Inr (\<lparr>m_score_func = ''ffm'', m_loss_func = loss_func, m_num_feat = num_feature,
                      m_num_field = num_field, m_num_K = num_K, m_param_num_w = n, m_param_w = buf\<rparr>,
                    h @ [Memalign kAlignByte (unat n * sizeof_real_t P)])))"
    unfolding res_def n_def kal_def by (rule Initialize_ffm [OF lf nf])
  obtain w1 g1 buf where
    j: "res = Inr (w1, g1, buf)"
    and m: "m = \<lparr>m_score_func = ''ffm'', m_loss_func = loss_func, m_num_feat = num_feature,
      m_num_field = num_field, m_num_K = num_K, m_param_num_w = n, m_param_w = buf\<rparr>"
    and h': "h' = h @ [Memalign kAlignByte (unat n * sizeof_real_t P)]"
    using run unfolding eq by (cases res) auto
  have inv: "w1 = 8 * ((unat num_feature * unat num_field) * q) \<and>
      length buf = length (replicate (unat n) (None :: 'a option)) \<and>
      w1 \<le> length (replicate (unat n) (None :: 'a option)) \<and>
      (\<forall>i<w1. ffm_slot_ok P num_K q i (buf ! i))"
    by (rule ffm_j_loop_inv [OF j [unfolded res_def] kq]) simp_all
  have un: "unat n = (8 * (unat num_feature * unat num_field * q)) mod 2 ^ 32"
    unfolding n_def q_def using kq [unfolded q_def] by (rule unat_ffm_param_num)
  from inv have "w1 \<le> unat n" and w1q: "w1 = 8 * (unat num_feature * unat num_field * q)"
    by simp_all
  with un have w1: "w1 = unat n"
    by (metis mod_less_eq_dividend le_antisym)
  from inv have len: "length buf = unat n"
    by simp
  show ?thesis
    using lf nf inv len w1 w1q h'
    by (simp add: m get_aligned_k_eq n_def kal_def q_def)
qed

lemma Initialize_ffm_total:
  assumes lf: "loss_func \<noteq> []" and nf: "0 < num_feature"
    and fit: "unat num_feature * (((unat num_K + 3) div 4) * 4) * unat num_field * 2 < 2 ^ 32"
  shows "\<exists>m h'. Initialize P this ''ffm'' loss_func num_feature num_field num_K h = Some (Inr (m, h'))"
proof -
  define kal :: index_t where "kal = of_nat (((unat num_K + 3) div 4) * 4)"
  define n where "n = num_feature * kal * num_field * 2"
  define q where "q = unat kal div 4"
  define res where "res = ffm_j_loop P num_K (inv_sqrt P num_K) kal num_field num_feature 0 0
    (default_random_engine P) (replicate (unat n) None)"
  have kq: "unat kal = 4 * q"
    unfolding kal_def q_def using unat_aligned [of "\<lparr>m_score_func = [], m_loss_func = [], m_num_feat = 0,
      m_num_field = 0, m_num_K = num_K, m_param_num_w = 0, m_param_w = []\<rparr>"]
    by (simp add: get_aligned_k_eq)
  have "unat (of_nat x :: index_t) \<le> x" for x
    by (simp add: unat_of_nat)
  then have "unat kal \<le> ((unat num_K + 3) div 4) * 4"
    unfolding kal_def .
  with kq have "q \<le> (unat num_K + 3) div 4"
    by simp
  then have "unat num_feature * unat num_field * q \<le> unat num_feature * unat num_field * ((unat num_K + 3) div 4)"
    by (rule mult_le_mono2)
  moreover have "8 * (unat num_feature * unat num_field * ((unat num_K + 3) div 4)) =
      unat num_feature * (((unat num_K + 3) div 4) * 4) * unat num_field * 2"
    by simp
  ultimately have small: "8 * (unat num_feature * unat num_field * q) < 2 ^ 32"
    using fit by linarith
  have un: "unat n = (8 * (unat num_feature * unat num_field * q)) mod 2 ^ 32"
    unfolding n_def q_def using kq [unfolded q_def] by (rule unat_ffm_param_num)
  with small have un': "unat n = 8 * (unat num_feature * unat num_field * q)"
    by simp
  have "\<exists>w' g' buf'. res = Inr (w', g', buf')"
    unfolding res_def by (rule ffm_j_loop_total [OF kq]) (simp_all add: un')
  then obtain w1 g1 buf where j: "res = Inr (w1, g1, buf)"
    by blast
  have eq: "Initialize P this ''ffm'' loss_func num_feature num_field num_K h =
    (case res of
       Inl e \<Rightarrow> Some (Inl (e, h @ [Memalign kAlignByte (unat n * sizeof_real_t P)]))
     | Inr (w1, g1, buf) \<Rightarrow>
         Some (Inr (\<lparr>m_score_func = ''ffm'', m_loss_func = loss_func, m_num_feat = num_feature,
                      m_num_field = num_field, m_num_K = num_K, m_param_num_w = n, m_param_w = buf\<rparr>,
                    h @ [Memalign kAlignByte (unat n * sizeof_real_t P)])))"
    unfolding res_def n_def kal_def by (rule Initialize_ffm [OF lf nf])
  show ?thesis
    unfolding eq j by simp
qed

lemma Initialize_frame:
  "Initialize P this score_func loss_func num_feature num_field num_K h =
     map_option (map_sum (\<lambda>(e, h0). (e, h @ h0)) (\<lambda>(m, h0). (m, h @ h0)))
       (Initialize P empty_Model score_func loss_func num_feature num_field num_K [])"
proof -
  consider "score_func = []" | "score_func \<noteq> []" "loss_func = []"
    | "score_func \<noteq> []" "loss_func \<noteq> []" "\<not> 0 < num_feature"
    | "loss_func \<noteq> []" "0 < num_feature" "score_func = ''linear''"
    | "loss_func \<noteq> []" "0 < num_feature" "score_func = ''fm''"
    | "loss_func \<noteq> []" "0 < num_feature" "score_func = ''ffm''"
    | "score_func \<noteq> []" "loss_func \<noteq> []" "0 < num_feature"
      "score_func \<noteq> ''linear''" "score_func \<noteq> ''fm''" "score_func \<noteq> ''ffm''"
    by blast
  then show ?thesis
  proof cases
    case 1
    then show ?thesis by (simp add: Initialize_def)
  next
    case 2
    then show ?thesis by (simp add: Initialize_def)
  next
    case 3
    then show ?thesis by (simp add: Initialize_def)
  next
    case 4
    then show ?thesis
      by (simp add: Initialize_linear)
  next
    case 5
    then show ?thesis
      by (simp add: Initialize_fm)
  next
    case 6
    define R where "R = ffm_j_loop P num_K (inv_sqrt P num_K) (of_nat (((unat num_K + 3) div 4) * 4))
      num_field num_feature 0 0 (default_random_engine P)
      (replicate (unat (num_feature * of_nat (((unat num_K + 3) div 4) * 4) * num_field * 2)) None)"
    note eq = Initialize_ffm [OF 6(1,2), of P _ num_field num_K, folded R_def]
    show ?thesis
      unfolding 6(3) eq by (cases R) auto
  next
    case 7
    then show ?thesis by (simp add: Initialize_def)
  qed
qed

subsection \<open>A fresh model\<close>

lemma Initialize_variant:
  assumes "Initialize P this score_func loss_func num_feature num_field num_K h = Some (Inr (m, h'))"
  shows "loss_func \<noteq> [] \<and> 0 < num_feature \<and>
    (score_func = ''linear'' \<or> score_func = ''fm'' \<or> score_func = ''ffm'')"
  using assms by (auto simp: Initialize_def Let_def split: if_splits)

lemma unat_fm_param_num: "unat (a * b * 2 :: index_t) = (unat a * unat b * 2) mod 2 ^ 32"
  by (simp add: unat_word_ariths mod_simps)

lemma unat_ffm_param_num_exact:
  "unat (a * of_nat k * b * 2 :: index_t) = (unat a * k * unat b * 2) mod 2 ^ 32"
  by (simp add: unat_word_ariths unat_of_nat mod_simps)

lemma ffm_slot_ok_written: "ffm_slot_ok P nK q i c \<Longrightarrow> c \<noteq> None"
  by (auto simp: ffm_slot_ok_def split: if_splits)

lemma Initialize_model:
  assumes run: "Initialize P this score_func loss_func num_feature num_field num_K h = Some (Inr (m, h'))"
  shows "m_score_func m = score_func \<and> m_loss_func m = loss_func \<and> m_num_feat m = num_feature \<and>
    m_num_field m = num_field \<and> m_num_K m = num_K \<and>
    unat (m_param_num_w m) =
      computeSlotCount score_func (unat num_feature) (unat num_field) (unat num_K) mod 2 ^ 32 \<and>
    length (m_param_w m) = unat (m_param_num_w m) \<and> None \<notin> set (m_param_w m)"
proof -
  note v = Initialize_variant [OF run]
  then have lf: "loss_func \<noteq> []" and nf: "0 < num_feature"
    by simp_all
  from v consider "score_func = ''linear''" | "score_func = ''fm''" | "score_func = ''ffm''"
    by blast
  then show ?thesis
  proof cases
    case 1
    with run Initialize_linear [OF lf nf, of P this num_field num_K h]
    have "m = \<lparr>m_score_func = ''linear'', m_loss_func = loss_func, m_num_feat = num_feature,
       m_num_field = num_field, m_num_K = num_K, m_param_num_w = num_feature * 2,
       m_param_w = map (linear_slot P) [0..<unat (num_feature * 2)]\<rparr>"
      by simp
    with 1 show ?thesis
      by (auto simp: computeSlotCount_def unat_word_ariths linear_slot_def)
  next
    case 2
    with run Initialize_fm [OF lf nf, of P this num_field num_K h]
    have "m = \<lparr>m_score_func = ''fm'', m_loss_func = loss_func, m_num_feat = num_feature,
       m_num_field = num_field, m_num_K = num_K, m_param_num_w = num_feature * num_K * 2,
       m_param_w = map (fm_slot P num_K (default_random_engine P)) [0..<unat (num_feature * num_K * 2)]\<rparr>"
      by simp
    with 2 show ?thesis
      by (auto simp: computeSlotCount_def unat_fm_param_num fm_slot_def)
  next
    case 3
    note r = Initialize_ffm_result [OF run [unfolded 3]]
    from r have f: "m_score_func m = ''ffm''" "m_loss_func m = loss_func" "m_num_feat m = num_feature"
      "m_num_field m = num_field" "m_num_K m = num_K"
      "m_param_num_w m = num_feature * get_aligned_k m * num_field * 2"
      by (metis Model.select_convs)+
    have "get_aligned_k m = of_nat (roundUpToAlignment (unat num_K) (unat kAlign))"
      by (simp add: get_aligned_k_def f)
    then have "unat (m_param_num_w m) =
        (unat num_feature * roundUpToAlignment (unat num_K) (unat kAlign) * unat num_field * 2) mod 2 ^ 32"
      unfolding f(6) by (simp only: unat_ffm_param_num_exact)
    moreover have "None \<notin> set (m_param_w m)"
      using r by (auto simp: in_set_conv_nth dest: ffm_slot_ok_written)
    ultimately show ?thesis
      using r f 3 by (simp add: computeSlotCount_def)
  qed
qed

lemma roundUp4: "roundUpToAlignment n (unat kAlign) = ((n + 3) div 4) * 4"
  by (simp add: roundUpToAlignment_def kAlign_def)

lemma Initialize_total:
  assumes "loss_func \<noteq> []" and "0 < num_feature"
    and "score_func = ''linear'' \<or> score_func = ''fm'' \<or> score_func = ''ffm''"
    and "computeSlotCount score_func (unat num_feature) (unat num_field) (unat num_K) < 2 ^ 32"
  shows "\<exists>m h'. Initialize P this score_func loss_func num_feature num_field num_K h = Some (Inr (m, h'))"
proof -
  from assms(3) consider "score_func = ''linear''" | "score_func = ''fm''" | "score_func = ''ffm''"
    by blast
  then show ?thesis
  proof cases
    case 1
    then show ?thesis
      by (simp add: Initialize_linear [OF assms(1,2)])
  next
    case 2
    then show ?thesis
      by (simp add: Initialize_fm [OF assms(1,2)])
  next
    case 3
    with assms(4) have "unat num_feature * (((unat num_K + 3) div 4) * 4) * unat num_field * 2 < 2 ^ 32"
      by (simp add: computeSlotCount_def roundUp4)
    from Initialize_ffm_total [OF assms(1,2) this] 3 show ?thesis
      by simp
  qed
qed

lemma computeSlotCount_mono:
  assumes "a \<le> a'" and "b \<le> b'" and "c \<le> c'"
  shows "computeSlotCount v a b c \<le> computeSlotCount v a' b' c'"
proof -
  have "roundUpToAlignment c (unat kAlign) \<le> roundUpToAlignment c' (unat kAlign)"
    using assms(3) by (simp add: roundUp4 div_le_mono)
  with assms show ?thesis
    by (simp add: computeSlotCount_def mult_le_mono)
qed

lemma computeSlotCount_even: "even (computeSlotCount v a b c)"
  by (simp add: computeSlotCount_def)

subsection \<open>Indices in the buffer of the field-aware variant\<close>

lemma unat_kAlign: "unat kAlign = 4"
  by (simp add: kAlign_def)

lemma ffm_index_facts:
  assumes "d < 4 * q" and "j < nfeat" and "f < nfield"
  shows "ffm_weight_index nfield (4 * q) j f d = 8 * ((j * nfield + f) * q + d div 4) + d mod 4"
    and "ffm_weight_index nfield (4 * q) j f d + 4 < 8 * (nfeat * nfield * q)"
proof -
  show eq: "ffm_weight_index nfield (4 * q) j f d = 8 * ((j * nfield + f) * q + d div 4) + d mod 4"
    unfolding ffm_weight_index_def unat_kAlign by (simp add: algebra_simps)
  have "d div 4 < q"
    using assms(1) by simp
  then have "(j * nfield + f) * q + d div 4 + 1 \<le> (j * nfield + f + 1) * q"
    by (simp add: algebra_simps)
  also have "j * nfield + f + 1 \<le> nfeat * nfield"
  proof -
    have "j * nfield + f + 1 \<le> j * nfield + nfield"
      using assms(3) by simp
    also have "\<dots> = (j + 1) * nfield"
      by simp
    also have "\<dots> \<le> nfeat * nfield"
      using assms(2) by (intro mult_le_mono1) simp
    finally show ?thesis .
  qed
  finally have "(j * nfield + f) * q + d div 4 + 1 \<le> nfeat * nfield * q"
    by simp
  then have "8 * ((j * nfield + f) * q + d div 4) + 8 \<le> 8 * (nfeat * nfield * q)"
    by simp
  moreover have "d mod 4 < 4"
    by simp
  ultimately show "ffm_weight_index nfield (4 * q) j f d + 4 < 8 * (nfeat * nfield * q)"
    unfolding eq by linarith
qed

lemma ffm_slot_ok_weight:
  assumes "ffm_slot_ok P nK q (8 * (b * q + d div 4) + d mod 4) c" and "d < 4 * q" and "unat nK \<le> d"
  shows "c = Some (r_zero P)"
proof -
  have m: "(8 * k + d mod 4) mod 8 = d mod 4" "(8 * k + d mod 4) div 8 = k" for k
    by (simp_all add: mod_mult_self4 [of 8 k "d mod 4", simplified] div_mult_self4)
  from assms(2) have "(b * q + d div 4) mod q = d div 4"
    by simp
  moreover have "4 * (d div 4) + d mod 4 = d"
    by simp
  ultimately show ?thesis
    using assms(1,3) unfolding ffm_slot_ok_def m [of "b * q + d div 4"] by simp
qed

lemma ffm_slot_ok_accumulator:
  assumes "ffm_slot_ok P nK q (8 * k + r + 4) c" and "r < 4"
  shows "c = Some (r_one P)"
proof -
  have "(8 * k + r + 4) mod 8 = r + 4"
    using assms(2) by (simp add: add.assoc)
  with assms(1) show ?thesis
    by (simp add: ffm_slot_ok_def)
qed

subsection \<open>Serialize and Deserialize\<close>

lemma Initialize_w_False:
  "Initialize_w P this False h =
     (if m_score_func this = ''linear'' \<or> m_score_func this = ''fm'' \<or> m_score_func this = ''ffm''
      then Some (Inr (this\<lparr>m_param_w := replicate (unat (m_param_num_w this)) None\<rparr>,
                      h @ [alloc_of P (m_score_func this) (m_param_num_w this)]))
      else Some (Inl (FATAL_unknown_score_function (m_score_func this), h)))"
  by (simp add: Initialize_w_def alloc_of_def Let_def)

lemma chunks_take: "chunks sz n (take (sz * n) bs) = chunks sz n bs"
  unfolding chunks_def
proof (rule map_cong [OF refl])
  fix i
  assume "i \<in> set [0..<n]"
  then have "Suc i \<le> n"
    by simp
  then have "sz * Suc i \<le> sz * n"
    by (rule mult_le_mono2)
  then have "sz \<le> sz * n - i * sz"
    by (simp add: mult.commute)
  then show "take sz (drop (i * sz) (take (sz * n) bs)) = take sz (drop (i * sz) bs)"
    by (simp add: drop_take min_def)
qed

lemma deserialize_w_eq:
  "deserialize_w P this file h =
     (case ReadDataFromDisk file (sizeof_index_t P) of
        Inl e \<Rightarrow> Some (Inl (e, h))
      | Inr (x, rest) \<Rightarrow>
          if m_score_func this = ''linear'' \<or> m_score_func this = ''fm'' \<or> m_score_func this = ''ffm''
          then
            (if length rest < sizeof_real_t P * unat (bytes_index_t P x)
             then Some (Inl (IOError, h @ [alloc_of P (m_score_func this) (bytes_index_t P x)]))
             else Some (Inr (this\<lparr>m_param_num_w := bytes_index_t P x,
                                  m_param_w := map (\<lambda>c. Some (bytes_real_t P c))
                                    (chunks (sizeof_real_t P) (unat (bytes_index_t P x)) rest)\<rparr>,
                             drop (sizeof_real_t P * unat (bytes_index_t P x)) rest,
                             h @ [alloc_of P (m_score_func this) (bytes_index_t P x)])))
          else Some (Inl (FATAL_unknown_score_function (m_score_func this), h)))"
proof (cases "ReadDataFromDisk file (sizeof_index_t P)")
  case (Inl e)
  then show ?thesis
    by (simp add: deserialize_w_def)
next
  case (Inr a)
  obtain x rest where a: "a = (x, rest)"
    by (cases a)
  show ?thesis
    unfolding deserialize_w_def Inr a
    by (simp add: Initialize_w_False ReadDataFromDisk_def load_block_def chunks_take mult.commute)
qed

lemma ReadDataFromDisk_error: "ReadDataFromDisk file len = Inl e \<Longrightarrow> e = IOError"
  by (simp add: ReadDataFromDisk_def split: if_splits)

lemma ReadStringFromFile_error: "ReadStringFromFile P file = Inl e \<Longrightarrow> e = IOError"
  by (auto simp: ReadStringFromFile_def split: sum.splits dest: ReadDataFromDisk_error)

lemma Deserialize_eq:
  "Deserialize P this filename fs h =
     (if filename = [] then Some (Inl (CHECK_filename_not_empty, h))
      else
        (case fs filename of
           None \<Rightarrow> Some (Inl (IOError, h))
         | Some bytes \<Rightarrow>
             (case parse_header P bytes of
                None \<Rightarrow> Some (Inl (IOError, h))
              | Some (variant, loss, nfeat, nfield, nK, n, rest) \<Rightarrow>
                  if variant = ''linear'' \<or> variant = ''fm'' \<or> variant = ''ffm'' then
                    (if length rest < sizeof_real_t P * unat n
                     then Some (Inl (IOError, h @ [alloc_of P variant n]))
                     else Some (Inr (\<lparr>m_score_func = variant, m_loss_func = loss, m_num_feat = nfeat,
                                       m_num_field = nfield, m_num_K = nK, m_param_num_w = n,
                                       m_param_w = map (\<lambda>c. Some (bytes_real_t P c))
                                         (chunks (sizeof_real_t P) (unat n) rest)\<rparr>,
                                     h @ [alloc_of P variant n])))
                  else Some (Inl (FATAL_unknown_score_function variant, h)))))"
  unfolding Deserialize_def parse_header_def OpenFileOrDie_r_def deserialize_w_eq
  by (auto split: option.split sum.split dest: ReadDataFromDisk_error ReadStringFromFile_error)

lemma ReadDataFromDisk_append: "length a = len \<Longrightarrow> ReadDataFromDisk (a @ b) len = Inr (a, b)"
  by (simp add: ReadDataFromDisk_def)

lemma ReadStringFromFile_label:
  "label_fits P s \<Longrightarrow> ReadStringFromFile P (len_bytes P (length s) @ s @ rest) = Inr (s, rest)"
  by (simp add: ReadStringFromFile_def label_fits_def ReadDataFromDisk_append)

lemma parse_header_header_bytes:
  assumes "faithful_repr P" and "label_fits P variant" and "label_fits P loss"
  shows "parse_header P (header_bytes P variant loss nfeat nfield nK n @ rest) =
    Some (variant, loss, nfeat, nfield, nK, n, rest)"
proof -
  from assms(1) have i: "length (index_t_bytes P x) = sizeof_index_t P"
    "bytes_index_t P (index_t_bytes P x) = x" for x
    by (simp_all add: faithful_repr_def)
  show ?thesis
    by (simp add: parse_header_def header_bytes_def ReadStringFromFile_label [OF assms(2)]
        ReadStringFromFile_label [OF assms(3)] ReadDataFromDisk_append i)
qed

lemma block_bytes_Some: "block_bytes P (map Some vs) = Inr (concat (map (real_t_bytes P) vs))"
  by (induction vs) simp_all

lemma written_block: "None \<notin> set w \<Longrightarrow> w = map Some (map the w)"
  by (induction w) auto

lemma chunks_Suc: "chunks sz (Suc n) bytes = take sz bytes # chunks sz n (drop sz bytes)"
proof -
  have "[0..<Suc n] = 0 # map Suc [0..<n]"
    by (simp add: upt_conv_Cons map_Suc_upt del: upt_Suc)
  then show ?thesis
    by (simp add: chunks_def comp_def add.commute del: upt_Suc)
qed

lemma chunks_concat:
  assumes "\<And>v. length (real_t_bytes P v) = sz"
  shows "chunks sz (length vs) (concat (map (real_t_bytes P) vs) @ rest) = map (real_t_bytes P) vs"
proof (induction vs)
  case Nil
  show ?case
    by (simp add: chunks_def)
next
  case (Cons v vs)
  then show ?case
    by (simp add: chunks_Suc assms)
qed

lemma write_write:
  "(case WriteDataToDisk file a of
      Inl e \<Rightarrow> Inl e
    | Inr file1 \<Rightarrow> (case WriteDataToDisk file1 b of Inl e \<Rightarrow> Inl e | Inr file2 \<Rightarrow> K file2)) =
   (case WriteDataToDisk file (a @ b) of Inl e \<Rightarrow> Inl e | Inr file2 \<Rightarrow> K file2)"
  by (auto simp: WriteDataToDisk_def)

lemma write_last:
  "(case WriteDataToDisk file a of Inl e \<Rightarrow> Inl e | Inr file1 \<Rightarrow> WriteDataToDisk file1 b) =
   WriteDataToDisk file (a @ b)"
  by (auto simp: WriteDataToDisk_def)

lemma WriteStringToFile_eq:
  "WriteStringToFile P file str = WriteDataToDisk file (len_bytes P (length str) @ str)"
  unfolding WriteStringToFile_def by (rule write_last)

lemma serialize_w_eq:
  assumes "None \<notin> set (m_param_w m)" and "length (m_param_w m) = unat (m_param_num_w m)"
  shows "serialize_w P m file =
    WriteDataToDisk file
      (index_t_bytes P (m_param_num_w m) @ concat (map (real_t_bytes P) (map the (m_param_w m))))"
proof -
  define D where "D = concat (map (real_t_bytes P) (map the (m_param_w m)))"
  have "block_bytes P (m_param_w m) = Inr D"
    unfolding D_def using block_bytes_Some [of P "map the (m_param_w m)"] written_block [OF assms(1)]
    by simp
  moreover have "take (unat (m_param_num_w m)) (m_param_w m) = m_param_w m"
    and "\<not> length (m_param_w m) < unat (m_param_num_w m)"
    using assms(2) by simp_all
  ultimately have "serialize_w P m file =
      (case WriteDataToDisk file (index_t_bytes P (m_param_num_w m)) of
         Inl e \<Rightarrow> Inl e | Inr file1 \<Rightarrow> WriteDataToDisk file1 D)"
    unfolding serialize_w_def by (simp cong: sum.case_cong)
  then show ?thesis
    unfolding D_def [symmetric] by (simp only: write_last)
qed

lemma Serialize_eq:
  assumes "None \<notin> set (m_param_w m)" and "length (m_param_w m) = unat (m_param_num_w m)"
  shows "Serialize P m filename dk =
    (if filename = [] then Inl CHECK_filename_not_empty
     else if d_writable dk filename \<and> length (checkpoint_bytes P m) \<le> d_room dk
     then Inr (dk\<lparr>d_files := (d_files dk)(filename \<mapsto> checkpoint_bytes P m),
                   d_room := d_room dk - length (checkpoint_bytes P m)\<rparr>)
     else Inl IOError)"
proof -
  define B where "B = checkpoint_bytes P m"
  have B: "len_bytes P (length (m_score_func m)) @ m_score_func m @
      len_bytes P (length (m_loss_func m)) @ m_loss_func m @
      index_t_bytes P (m_num_feat m) @ index_t_bytes P (m_num_field m) @ index_t_bytes P (m_num_K m) @
      index_t_bytes P (m_param_num_w m) @ concat (map (real_t_bytes P) (map the (m_param_w m))) = B"
    by (simp add: B_def checkpoint_bytes_def header_bytes_def)
  have "Serialize P m filename dk =
    (if filename = [] then Inl CHECK_filename_not_empty
     else
       (case OpenFileOrDie_w dk filename of
          Inl e \<Rightarrow> Inl e
        | Inr file \<Rightarrow>
            (case WriteDataToDisk file B of
               Inl e \<Rightarrow> Inl e
             | Inr file6 \<Rightarrow> Inr (Close_w dk filename file6))))"
    unfolding Serialize_def WriteStringToFile_eq serialize_w_eq [OF assms] write_write append_assoc B
    by (rule refl)
  then show ?thesis
    unfolding B_def [symmetric]
    by (simp add: OpenFileOrDie_w_def WriteDataToDisk_def Close_w_def)
qed

lemma length_concat_repr:
  assumes "\<And>v. length (real_t_bytes P v) = sz"
  shows "length (concat (map (real_t_bytes P) vs)) = sz * length vs"
  by (induction vs) (simp_all add: assms)

lemma Deserialize_header_bytes:
  assumes fr: "faithful_repr P" and "label_fits P variant" and "label_fits P loss"
    and "filename \<noteq> []" and "variant = ''linear'' \<or> variant = ''fm'' \<or> variant = ''ffm''"
    and "length vs = unat n"
  shows "Deserialize P this filename
      (fs(filename \<mapsto> header_bytes P variant loss nfeat nfield nK n @ concat (map (real_t_bytes P) vs))) h =
    Some (Inr (\<lparr>m_score_func = variant, m_loss_func = loss, m_num_feat = nfeat, m_num_field = nfield,
                 m_num_K = nK, m_param_num_w = n, m_param_w = map Some vs\<rparr>,
               h @ [alloc_of P variant n]))"
proof -
  from fr have r: "length (real_t_bytes P v) = sizeof_real_t P" "bytes_real_t P (real_t_bytes P v) = v" for v
    by (simp_all add: faithful_repr_def)
  have "chunks (sizeof_real_t P) (length vs) (concat (map (real_t_bytes P) vs) @ []) = map (real_t_bytes P) vs"
    by (rule chunks_concat) (rule r)
  then have c: "chunks (sizeof_real_t P) (unat n) (concat (map (real_t_bytes P) vs)) = map (real_t_bytes P) vs"
    using assms(6) by simp
  have l: "length (concat (map (real_t_bytes P) vs)) = sizeof_real_t P * unat n"
    using length_concat_repr [of P "sizeof_real_t P" vs] r assms(6) by simp
  show ?thesis
    using assms(4,5)
    by (simp add: Deserialize_eq parse_header_header_bytes [OF assms(1,2,3)] c l r comp_def)
qed

subsection \<open>The concrete platform\<close>

lemma bytes_le_le_bytes: "bytes_le (le_bytes x) = x"
proof -
  define u where "u = uint x"
  have u: "0 \<le> u" "u < 2 ^ 32"
    unfolding u_def using uint_lt2p [of x] by simp_all
  define a where "a = u div 256"
  define b where "b = a div 256"
  define c where "c = b div 256"
  have d: "drop_bit 8 u = a" "drop_bit 16 u = b" "drop_bit 24 u = c"
    by (simp_all add: drop_bit_eq_div a_def b_def c_def div_mult2_eq [symmetric])
  have "c < 256"
    using u unfolding c_def b_def a_def by simp
  moreover have "0 \<le> c"
    using u unfolding c_def b_def a_def by simp
  ultimately have c: "c mod 256 = c"
    by simp
  have "u mod 256 + 256 * (a mod 256 + 256 * (b mod 256 + 256 * c)) = u"
    unfolding c_def b_def a_def by simp
  then have "bytes_le (le_bytes x) = word_of_int u"
    by (simp add: bytes_le_def le_bytes_def u_def [symmetric] d c)
  then show ?thesis
    by (simp add: u_def)
qed

lemma length_le_bytes: "length (le_bytes x) = 4"
  by (simp add: le_bytes_def)

lemma faithful_repr_test_platform: "faithful_repr test_platform"
  by (simp add: faithful_repr_def test_platform_def bytes_le_le_bytes length_le_bytes)

lemma label_fits_test_platform: "length s < 2 ^ 32 \<Longrightarrow> label_fits test_platform s"
  by (simp add: label_fits_def test_platform_def bytes_le_le_bytes length_le_bytes unat_of_nat)

subsection \<open>Fresh models whose number of slots fits the index type\<close>

text \<open>
  When the spec's number of slots is below \<open>2 ^ 32\<close>, no product in \<open>Initialize\<close> wraps
  around: construction returns a model with exactly that number of slots.
\<close>

lemma Initialize_fits:
  assumes "loss_func \<noteq> []" and "0 < num_feature"
    and "score_func = ''linear'' \<or> score_func = ''fm'' \<or> score_func = ''ffm''"
    and "computeSlotCount score_func (unat num_feature) (unat num_field) (unat num_K) < 2 ^ 32"
  shows "\<exists>m h'. Initialize P this score_func loss_func num_feature num_field num_K h = Some (Inr (m, h')) \<and>
    unat (m_param_num_w m) = computeSlotCount score_func (unat num_feature) (unat num_field) (unat num_K)"
proof -
  from Initialize_total [OF assms, of P this h]
  obtain m h' where run: "Initialize P this score_func loss_func num_feature num_field num_K h = Some (Inr (m, h'))"
    by blast
  from Initialize_model [OF run] assms(4)
  have "unat (m_param_num_w m) = computeSlotCount score_func (unat num_feature) (unat num_field) (unat num_K)"
    by simp
  with run show ?thesis
    by blast
qed

lemma slot_count_even:
  assumes "Initialize P this score_func loss_func num_feature num_field num_K h = Some (Inr (m, h'))"
  shows "even (unat (m_param_num_w m))"
proof -
  have "even (computeSlotCount score_func (unat num_feature) (unat num_field) (unat num_K) mod 2 ^ 32)"
    by (simp add: dvd_mod_iff computeSlotCount_even)
  with Initialize_model [OF assms] show ?thesis
    by simp
qed

lemma slot_count_monotone_fits:
  assumes "loss_func \<noteq> []" and "loss_func' \<noteq> []" and "0 < num_feature"
    and "score_func = ''linear'' \<or> score_func = ''fm'' \<or> score_func = ''ffm''"
    and "num_feature \<le> num_feature'" and "num_field \<le> num_field'" and "num_K \<le> num_K'"
    and "computeSlotCount score_func (unat num_feature') (unat num_field') (unat num_K') < 2 ^ 32"
  shows "\<exists>m h1 m' h1'.
    Initialize P this score_func loss_func num_feature num_field num_K h = Some (Inr (m, h1)) \<and>
    Initialize P this' score_func loss_func' num_feature' num_field' num_K' h' = Some (Inr (m', h1')) \<and>
    m_param_num_w m \<le> m_param_num_w m'"
proof -
  let ?c = "computeSlotCount score_func (unat num_feature) (unat num_field) (unat num_K)"
  let ?c' = "computeSlotCount score_func (unat num_feature') (unat num_field') (unat num_K')"
  have le: "?c \<le> ?c'"
    using assms(5,6,7) by (intro computeSlotCount_mono) (simp_all add: word_le_nat_alt)
  with assms(8) have fit: "?c < 2 ^ 32"
    by simp
  from assms(3,5) have nf': "0 < num_feature'"
    by simp
  from Initialize_fits [OF assms(1,3,4) fit, of P this h]
  obtain m h1 where run: "Initialize P this score_func loss_func num_feature num_field num_K h = Some (Inr (m, h1))"
    and u: "unat (m_param_num_w m) = ?c"
    by blast
  from Initialize_fits [OF assms(2) nf' assms(4,8), of P this' h']
  obtain m' h1' where run': "Initialize P this' score_func loss_func' num_feature' num_field' num_K' h' = Some (Inr (m', h1'))"
    and u': "unat (m_param_num_w m') = ?c'"
    by blast
  from le u u' have "m_param_num_w m \<le> m_param_num_w m'"
    by (simp add: word_le_nat_alt)
  with run run' show ?thesis
    by blast
qed

text \<open>
  The layout of the buffer of a fresh model.
\<close>

lemma Initialize_layout:
  assumes run: "Initialize P this score_func loss_func num_feature num_field num_K h = Some (Inr (m, h'))"
  shows "length (m_param_w m) = unat (m_param_num_w m) \<and>
    (score_func = ''linear'' \<or> score_func = ''fm'' \<longrightarrow>
       (\<forall>i. 2 * i + 1 < unat (m_param_num_w m) \<longrightarrow>
          m_param_w m ! (2 * i) \<noteq> None \<and> m_param_w m ! (2 * i + 1) = Some (r_one P))) \<and>
    (score_func = ''linear'' \<longrightarrow>
       (\<forall>i. 2 * i + 1 < unat (m_param_num_w m) \<longrightarrow> m_param_w m ! (2 * i) = Some (r_zero P))) \<and>
    (score_func = ''ffm'' \<longrightarrow>
       (\<forall>c r. r < unat kAlign \<longrightarrow> 8 * c + r + unat kAlign < unat (m_param_num_w m) \<longrightarrow>
          m_param_w m ! (8 * c + r) \<noteq> None \<and> m_param_w m ! (8 * c + r + unat kAlign) = Some (r_one P)))"
proof -
  note v = Initialize_variant [OF run]
  then have lf: "loss_func \<noteq> []" and nf: "0 < num_feature"
    by simp_all
  note mo = Initialize_model [OF run]
  from v consider "score_func = ''linear''" | "score_func = ''fm''" | "score_func = ''ffm''"
    by blast
  then show ?thesis
  proof cases
    case 1
    with run Initialize_linear [OF lf nf, of P this num_field num_K h]
    have "m = \<lparr>m_score_func = ''linear'', m_loss_func = loss_func, m_num_feat = num_feature,
       m_num_field = num_field, m_num_K = num_K, m_param_num_w = num_feature * 2,
       m_param_w = map (linear_slot P) [0..<unat (num_feature * 2)]\<rparr>"
      by simp
    then have "m_param_w m = map (linear_slot P) [0..<unat (num_feature * 2)]"
      and "m_param_num_w m = num_feature * 2"
      by simp_all
    with 1 show ?thesis
      by (simp add: linear_slot_def)
  next
    case 2
    with run Initialize_fm [OF lf nf, of P this num_field num_K h]
    have "m = \<lparr>m_score_func = ''fm'', m_loss_func = loss_func, m_num_feat = num_feature,
       m_num_field = num_field, m_num_K = num_K, m_param_num_w = num_feature * num_K * 2,
       m_param_w = map (fm_slot P num_K (default_random_engine P)) [0..<unat (num_feature * num_K * 2)]\<rparr>"
      by simp
    then have "m_param_w m = map (fm_slot P num_K (default_random_engine P)) [0..<unat (num_feature * num_K * 2)]"
      and "m_param_num_w m = num_feature * num_K * 2"
      by simp_all
    with 2 show ?thesis
      by (simp add: fm_slot_def)
  next
    case 3
    define q where "q = unat (get_aligned_k m) div 4"
    note r = Initialize_ffm_result [OF run [unfolded 3], folded q_def]
    have "m_param_w m ! (8 * c + r) \<noteq> None \<and> m_param_w m ! (8 * c + r + 4) = Some (r_one P)"
      if "r < 4" and "8 * c + r + 4 < unat (m_param_num_w m)" for c r
    proof -
      from r that(2) have "ffm_slot_ok P num_K q (8 * c + r) (m_param_w m ! (8 * c + r))"
        and "ffm_slot_ok P num_K q (8 * c + r + 4) (m_param_w m ! (8 * c + r + 4))"
        by simp_all
      from ffm_slot_ok_written [OF this(1)] ffm_slot_ok_accumulator [OF this(2) that(1)]
      show ?thesis
        by simp
    qed
    with 3 mo show ?thesis
      by (simp add: unat_kAlign)
  qed
qed

text \<open>
  The padding of the field-aware variant: with at least one feature and one field, and a
  number of slots that fits, construction returns a model whose padded width is the factor
  count rounded up, at least the factor count and a multiple of the alignment width; for
  every feature \<open>j\<close>, field \<open>f\<close> and factor position \<open>d\<close> below the padded width, the weight
  at position \<open>d\<close> is 0 when \<open>factorCount \<le> d\<close>, and its accumulator, \<open>kAlign\<close> slots after the
  weight, is 1.0.
\<close>

lemma ffm_padding_fits:
  assumes lf: "loss_func \<noteq> []" and nf: "0 < num_feature" and nfield: "0 < num_field"
    and fit: "computeSlotCount ''ffm'' (unat num_feature) (unat num_field) (unat num_K) < 2 ^ 32"
  shows "\<exists>m h'. Initialize P this ''ffm'' loss_func num_feature num_field num_K h = Some (Inr (m, h')) \<and>
    unat (get_aligned_k m) = roundUpToAlignment (unat num_K) (unat kAlign) \<and>
    num_K \<le> get_aligned_k m \<and> unat (get_aligned_k m) mod unat kAlign = 0 \<and>
    length (m_param_w m) = unat num_feature * unat num_field * unat (get_aligned_k m) * 2 \<and>
    (\<forall>j f d. j < unat num_feature \<longrightarrow> f < unat num_field \<longrightarrow> d < unat (get_aligned_k m) \<longrightarrow>
        (unat num_K \<le> d \<longrightarrow>
           m_param_w m ! ffm_weight_index (unat num_field) (unat (get_aligned_k m)) j f d =
             Some (r_zero P)) \<and>
        m_param_w m ! (ffm_weight_index (unat num_field) (unat (get_aligned_k m)) j f d
            + unat kAlign) = Some (r_one P))"
proof -
  define R where "R = roundUpToAlignment (unat num_K) (unat kAlign)"
  from fit have fitR: "unat num_feature * R * unat num_field * 2 < 2 ^ 32"
    by (simp add: computeSlotCount_def R_def)
  from fitR have "unat num_feature * (((unat num_K + 3) div 4) * 4) * unat num_field * 2 < 2 ^ 32"
    by (simp add: R_def roundUp4)
  from Initialize_ffm_total [OF lf nf this, of P this h]
  obtain m h' where run: "Initialize P this ''ffm'' loss_func num_feature num_field num_K h = Some (Inr (m, h'))"
    by blast
  define q where "q = unat (get_aligned_k m) div 4"
  have kq: "unat (get_aligned_k m) = 4 * q"
    unfolding q_def by (rule unat_aligned)
  note r = Initialize_ffm_result [OF run, folded q_def]
  from r have k: "m_num_K m = num_K"
    by (metis Model.select_convs(5))
  define X where "X = unat num_feature * unat num_field"
  have "0 < unat num_feature" and "0 < unat num_field"
    using nf nfield by (simp_all add: word_less_nat_alt)
  then have "0 < X"
    unfolding X_def by simp
  then have "R \<le> R * X"
    by simp
  moreover have "unat num_feature * R * unat num_field * 2 = 2 * (R * X)"
    unfolding X_def by simp
  ultimately have Rlt: "R < 2 ^ 32"
    using fitR by linarith
  have g: "unat (get_aligned_k m) = R"
    using Rlt by (simp add: get_aligned_k_def k R_def [symmetric] unat_of_nat)
  have RK: "unat num_K \<le> R" and R4: "R mod 4 = 0"
    unfolding R_def roundUp4 by presburger+
  have len: "length (m_param_w m) = 8 * (unat num_feature * unat num_field * q)"
    using r by simp
  have ok: "ffm_slot_ok P num_K q i (m_param_w m ! i)" if "i < 8 * (unat num_feature * unat num_field * q)" for i
    using r that len by simp
  have slots: "(unat num_K \<le> d \<longrightarrow>
      m_param_w m ! ffm_weight_index (unat num_field) (4 * q) j f d = Some (r_zero P)) \<and>
      m_param_w m ! (ffm_weight_index (unat num_field) (4 * q) j f d + 4) = Some (r_one P)"
    if "j < unat num_feature" and "f < unat num_field" and "d < 4 * q" for j f d
  proof -
    note i = ffm_index_facts [OF that(3,1,2)]
    have a: "ffm_slot_ok P num_K q (8 * ((j * unat num_field + f) * q + d div 4) + d mod 4)
        (m_param_w m ! ffm_weight_index (unat num_field) (4 * q) j f d)"
      using ok [of "ffm_weight_index (unat num_field) (4 * q) j f d"] i by simp
    have b: "ffm_slot_ok P num_K q (8 * ((j * unat num_field + f) * q + d div 4) + d mod 4 + 4)
        (m_param_w m ! (ffm_weight_index (unat num_field) (4 * q) j f d + 4))"
      using ok [of "ffm_weight_index (unat num_field) (4 * q) j f d + 4"] i by simp
    from ffm_slot_ok_weight [OF a that(3)] ffm_slot_ok_accumulator [OF b]
    show ?thesis
      by simp
  qed
  have p1: "unat (get_aligned_k m) = roundUpToAlignment (unat num_K) (unat kAlign)"
    using g by (simp add: R_def)
  have p2: "num_K \<le> get_aligned_k m"
    using RK g by (simp add: word_le_nat_alt)
  have p3: "unat (get_aligned_k m) mod unat kAlign = 0"
    using R4 g by (simp add: unat_kAlign)
  have p4: "length (m_param_w m) = unat num_feature * unat num_field * unat (get_aligned_k m) * 2"
    unfolding kq len by simp
  have p5: "\<forall>j f d. j < unat num_feature \<longrightarrow> f < unat num_field \<longrightarrow> d < unat (get_aligned_k m) \<longrightarrow>
        (unat num_K \<le> d \<longrightarrow>
           m_param_w m ! ffm_weight_index (unat num_field) (unat (get_aligned_k m)) j f d =
             Some (r_zero P)) \<and>
        m_param_w m ! (ffm_weight_index (unat num_field) (unat (get_aligned_k m)) j f d
            + unat kAlign) = Some (r_one P)"
    using slots unfolding kq unat_kAlign by blast
  show ?thesis
    by (rule exI [of _ m], rule exI [of _ h']) (intro conjI run p1 p2 p3 p4 p5)
qed

text \<open>
  When the number of slots does not fit, the block is too short for the loops of the
  field-aware variant: with \<open>2 ^ 29\<close> features, one field and a padded width of 4, the
  product \<open>2 ^ 29 * 4 * 1 * 2\<close> is 0 in \<open>index_t\<close>, no slot is allocated, and the first store
  of the innermost loop is outside the block.
\<close>

lemma ffm_j_loop_empty_block:
  "ffm_j_loop P nK coef 4 1 0x20000000 0 0 g [] = Inl OutOfBounds"
proof -
  have s: "ffm_s_loop P nK coef 0 0 0 g [] = Inl OutOfBounds"
    by (simp add: ffm_s_loop.simps [of P nK coef 0 0 0 g "[]"] kAlign_def store_def split: prod.splits)
  have d: "ffm_d_loop P nK coef 4 0 0 g [] = Inl OutOfBounds"
    by (simp add: ffm_d_loop.simps [of P nK coef 4 0 0 g "[]"] s)
  have f: "ffm_f_loop P nK coef 4 1 0 0 g [] = Inl OutOfBounds"
    by (simp add: ffm_f_loop.simps [of P nK coef 4 1 0 0 g "[]"] d)
  show ?thesis
    by (simp add: ffm_j_loop.simps [of P nK coef 4 1 "0x20000000" 0 0 g "[]"] f)
qed

section \<open>The claims\<close>

text \<open>
  The spec's typed errors correspond to the failure sites of the source as follows:
  \<open>InvalidDimensions\<close> is the failure of \<open>CHECK_GT(num_feature, 0)\<close>, and \<open>InvalidVariant\<close>
  and \<open>FormatError\<close> are \<open>LOG(FATAL) << "Unknow score function"\<close>. In every case the process
  ends and no model is returned.
\<close>

subsection \<open>C8: no features\<close>

text \<open>
  Claim C8. For every variant (indeed for every non-empty score function), fresh
  construction with \<open>featureCount = 0\<close> fails at \<open>CHECK_GT(num_feature, 0)\<close>, and the
  allocation log at the failure is the log before the call: nothing has been allocated.
\<close>

theorem Initialize_without_features:
  "score_func \<noteq> [] \<Longrightarrow> loss_func \<noteq> [] \<Longrightarrow>
   Initialize P this score_func loss_func 0 num_field num_K h = Some (Inl (CHECK_GT_num_feature_0, h))"
  by (simp add: Initialize_def)

theorem Initialize_without_features_witness:
  "''ffm'' \<noteq> [] \<and> ''logloss'' \<noteq> [] \<and>
   Initialize test_platform empty_Model ''ffm'' ''logloss'' 0 2 4 [Malloc 8] =
     Some (Inl (CHECK_GT_num_feature_0, [Malloc 8]))"
  using Initialize_without_features [of "''ffm''" "''logloss''" test_platform empty_Model 2 4 "[Malloc 8]"]
  by simp

subsection \<open>C7: no factors\<close>

text \<open>
  Claim C7, as amended. The source admits \<open>factorCount = 0\<close> (\<open>CHECK_GE(num_K, 0)\<close>): for the
  factorization machine and the field-aware variant, fresh construction with
  \<open>factorCount = 0\<close> and \<open>featureCount > 0\<close> does not fail; it returns a model with
  \<open>slotCount = 0\<close> and an empty buffer, so that no value derived from \<open>1 / sqrt(0)\<close> is
  stored.
\<close>

theorem Initialize_without_factors:
  assumes "loss_func \<noteq> []" and "0 < num_feature" and "score_func = ''fm'' \<or> score_func = ''ffm''"
  shows "Initialize P this score_func loss_func num_feature num_field 0 h =
    Some (Inr (\<lparr>m_score_func = score_func, m_loss_func = loss_func, m_num_feat = num_feature,
                 m_num_field = num_field, m_num_K = 0, m_param_num_w = 0, m_param_w = []\<rparr>,
               h @ [if score_func = ''fm'' then Malloc 0 else Memalign kAlignByte 0]))"
proof (cases "score_func = ''fm''")
  case True
  with assms(1,2) show ?thesis
    by (simp add: Initialize_fm)
next
  case False
  with assms(3) have ffm: "score_func = ''ffm''"
    by simp
  have "\<exists>m h'. Initialize P this ''ffm'' loss_func num_feature num_field 0 h = Some (Inr (m, h'))"
    using assms(1,2) by (rule Initialize_ffm_total) simp
  then obtain m h' where run: "Initialize P this ''ffm'' loss_func num_feature num_field 0 h = Some (Inr (m, h'))"
    by blast
  note r = Initialize_ffm_result [OF run]
  from r have k: "m_num_K m = 0"
    by (metis Model.select_convs(5))
  then have g: "get_aligned_k m = 0"
    by (simp add: get_aligned_k_eq)
  from r g have "m_param_num_w m = 0"
    by (metis Model.select_convs(6) mult_zero_left mult_zero_right of_nat_0)
  with r g have "m_param_w m = []" and h': "h' = h @ [Memalign kAlignByte 0]"
    by simp_all
  with r g \<open>m_param_num_w m = 0\<close>
  have "m = \<lparr>m_score_func = ''ffm'', m_loss_func = loss_func, m_num_feat = num_feature,
         m_num_field = num_field, m_num_K = 0, m_param_num_w = 0, m_param_w = []\<rparr>"
    by (cases m) simp
  with run ffm h' show ?thesis
    by simp
qed

text \<open>
  Claim C7 as stated fails: with one feature and no factors, construction succeeds for the
  factorization machine and for the field-aware variant.
\<close>

theorem Initialize_without_factors_counterexample:
  "Initialize test_platform empty_Model ''fm'' ''logloss'' 1 0 0 [] =
     Some (Inr (\<lparr>m_score_func = ''fm'', m_loss_func = ''logloss'', m_num_feat = 1, m_num_field = 0,
                  m_num_K = 0, m_param_num_w = 0, m_param_w = []\<rparr>, [Malloc 0])) \<and>
   Initialize test_platform empty_Model ''ffm'' ''logloss'' 1 1 0 [] =
     Some (Inr (\<lparr>m_score_func = ''ffm'', m_loss_func = ''logloss'', m_num_feat = 1, m_num_field = 1,
                  m_num_K = 0, m_param_num_w = 0, m_param_w = []\<rparr>, [Memalign 16 0]))"
  by code_simp

theorem Initialize_without_factors_witness:
  "''logloss'' \<noteq> [] \<and> (0 :: index_t) < 3 \<and> (''ffm'' = ''fm'' \<or> ''ffm'' = ''ffm'') \<and>
   Initialize test_platform empty_Model ''ffm'' ''logloss'' 3 2 0 [] =
    Some (Inr (\<lparr>m_score_func = ''ffm'', m_loss_func = ''logloss'', m_num_feat = 3,
                 m_num_field = 2, m_num_K = 0, m_param_num_w = 0, m_param_w = []\<rparr>,
               [Memalign kAlignByte 0]))"
  using Initialize_without_factors [of "''logloss''" 3 "''ffm''" test_platform empty_Model 2 "[]"]
  by simp

subsection \<open>C1: the number of slots\<close>

text \<open>
  Claim C1 does not hold of the code for counts that do not fit \<open>index_t\<close>: \<open>Initialize\<close>
  multiplies in \<open>index_t\<close> and never checks the product. Fresh construction of a linear
  model with \<open>2 ^ 31\<close> features returns a model with slot count 0 and an empty buffer, where
  the claim's count is \<open>featureCount * 2 = 2 ^ 32\<close>; fresh construction of a field-aware
  model with \<open>2 ^ 29\<close> features, one field and four factors allocates no slot, where the
  claim's count is \<open>2 ^ 29 * 4 * 1 * 2 = 2 ^ 32\<close>, and its first store is outside the block.
  (For counts below \<open>2 ^ 32\<close> the slot count is the claim's: \<open>Initialize_fits\<close>.)
\<close>

theorem fresh_slot_count_overflow:
  "Initialize test_platform empty_Model ''linear'' ''logloss'' 0x80000000 0 0 [] =
     Some (Inr (\<lparr>m_score_func = ''linear'', m_loss_func = ''logloss'', m_num_feat = 0x80000000,
                  m_num_field = 0, m_num_K = 0, m_param_num_w = 0, m_param_w = []\<rparr>, [Malloc 0])) \<and>
   computeSlotCount ''linear'' (unat (0x80000000 :: index_t)) (unat (0 :: index_t)) (unat (0 :: index_t)) =
     4294967296 \<and>
   Initialize test_platform empty_Model ''ffm'' ''logloss'' 0x20000000 1 4 [] =
     Some (Inl (OutOfBounds, [Memalign 16 0])) \<and>
   computeSlotCount ''ffm'' (unat (0x20000000 :: index_t)) (unat (1 :: index_t)) (unat (4 :: index_t)) =
     4294967296"
  by (simp add: Initialize_linear Initialize_ffm ffm_j_loop_empty_block computeSlotCount_def
      roundUpToAlignment_def kAlign_def kAlignByte_def)

subsection \<open>C9: evenness and monotonicity of the number of slots\<close>

text \<open>
  Claim C9 does not hold of the code for counts that do not fit \<open>index_t\<close>: the slot count
  is not monotone in \<open>featureCount\<close>. A linear model with one feature has 2 slots, and a
  linear model with \<open>2 ^ 31\<close> features, whose product \<open>2 ^ 31 * 2\<close> is 0 in \<open>index_t\<close>, has
  none. (The slot count of every fresh model is even, \<open>slot_count_even\<close>, and for counts below
  \<open>2 ^ 32\<close> it is monotone, \<open>slot_count_monotone_fits\<close>.)
\<close>

theorem slot_count_not_monotone:
  "Initialize test_platform empty_Model ''linear'' ''logloss'' 1 0 0 [] =
     Some (Inr (\<lparr>m_score_func = ''linear'', m_loss_func = ''logloss'', m_num_feat = 1,
                  m_num_field = 0, m_num_K = 0, m_param_num_w = 2,
                  m_param_w = [Some 0, Some 0x3F800000]\<rparr>, [Malloc 8])) \<and>
   Initialize test_platform empty_Model ''linear'' ''logloss'' 0x80000000 0 0 [] =
     Some (Inr (\<lparr>m_score_func = ''linear'', m_loss_func = ''logloss'', m_num_feat = 0x80000000,
                  m_num_field = 0, m_num_K = 0, m_param_num_w = 0, m_param_w = []\<rparr>, [Malloc 0])) \<and>
   (1 :: index_t) \<le> 0x80000000 \<and> \<not> (2 :: index_t) \<le> 0"
  by (simp add: Initialize_linear linear_slot_def test_platform_def upt_conv_Cons)

subsection \<open>C10: determinism\<close>

text \<open>
  Claim C10. The outcome of a fresh construction (the failure, or the model with its
  buffer) is the same whatever the state of the object and the allocation log before the
  call: the random engine is constructed by default inside \<open>Initialize_w\<close> and the model
  takes no engine state from outside. Every slot of the buffer of a fresh model has been
  written, so that no indeterminate memory is left in it.
\<close>

theorem fresh_model_deterministic:
  "map_option (map_sum fst fst) (Initialize P this score_func loss_func num_feature num_field num_K h) =
   map_option (map_sum fst fst) (Initialize P this' score_func loss_func num_feature num_field num_K h') \<and>
   (\<forall>m h1. Initialize P this score_func loss_func num_feature num_field num_K h = Some (Inr (m, h1)) \<longrightarrow>
      None \<notin> set (m_param_w m))"
proof (intro conjI allI impI)
  have "map_option (map_sum fst fst) (Initialize P t score_func loss_func num_feature num_field num_K g) =
      map_option (map_sum fst fst) (Initialize P empty_Model score_func loss_func num_feature num_field num_K [])"
    for t g
    by (subst Initialize_frame)
      (simp add: option.map_comp sum.map_comp comp_def case_prod_beta cong: option.map_cong sum.map_cong)
  from this [of this h] this [of this' h']
  show "map_option (map_sum fst fst) (Initialize P this score_func loss_func num_feature num_field num_K h) =
      map_option (map_sum fst fst) (Initialize P this' score_func loss_func num_feature num_field num_K h')"
    by simp
next
  fix m h1
  assume "Initialize P this score_func loss_func num_feature num_field num_K h = Some (Inr (m, h1))"
  from Initialize_model [OF this] show "None \<notin> set (m_param_w m)"
    by simp
qed

theorem fresh_model_deterministic_witness:
  "map_option (map_sum fst fst) (Initialize test_platform empty_Model ''fm'' ''logloss'' 2 0 2 []) =
   map_option (map_sum fst fst)
     (Initialize test_platform
        \<lparr>m_score_func = ''linear'', m_loss_func = ''x'', m_num_feat = 7, m_num_field = 1, m_num_K = 1,
           m_param_num_w = 2, m_param_w = [None, Some 5]\<rparr> ''fm'' ''logloss'' 2 0 2 [Malloc 8]) \<and>
   Initialize test_platform empty_Model ''fm'' ''logloss'' 2 0 2 [] =
     Some (Inr (\<lparr>m_score_func = ''fm'', m_loss_func = ''logloss'', m_num_feat = 2,
           m_num_field = 0, m_num_K = 2, m_param_num_w = 8,
           m_param_w =
             [Some 0x3E000001, Some 0x3F800000, Some 0x3E000002, Some 0x3F800000,
              Some 0x3E000003, Some 0x3F800000, Some 0x3E000004, Some 0x3F800000]\<rparr>,
        [Malloc 32])) \<and>
   None \<notin> set [Some 0x3E000001, Some 0x3F800000, Some 0x3E000002, Some 0x3F800000,
              Some 0x3E000003, Some 0x3F800000, Some 0x3E000004, Some (0x3F800000 :: 32 word)]"
proof -
  let ?M = "\<lparr>m_score_func = ''fm'', m_loss_func = ''logloss'', m_num_feat = 2,
           m_num_field = 0, m_num_K = 2, m_param_num_w = 8,
           m_param_w =
             [Some 0x3E000001, Some 0x3F800000, Some 0x3E000002, Some 0x3F800000,
              Some 0x3E000003, Some 0x3F800000, Some 0x3E000004, Some (0x3F800000 :: 32 word)]\<rparr>"
  have run: "Initialize test_platform empty_Model ''fm'' ''logloss'' 2 0 2 [] = Some (Inr (?M, [Malloc 32]))"
    by code_simp
  from fresh_model_deterministic [of test_platform empty_Model "''fm''" "''logloss''" 2 0 2 "[]"
      "\<lparr>m_score_func = ''linear'', m_loss_func = ''x'', m_num_feat = 7, m_num_field = 1, m_num_K = 1,
           m_param_num_w = 2, m_param_w = [None, Some 5]\<rparr>" "[Malloc 8]"] run
  show ?thesis
    by simp
qed

subsection \<open>C6: the padding of the field-aware variant\<close>

text \<open>
  Claim C6 does not hold of the code for counts that do not fit \<open>index_t\<close>. With \<open>2 ^ 29\<close>
  features, one field and one factor the padded width is 4 and positions 1, 2 and 3 of every
  block are padding; the product \<open>2 ^ 29 * 4 * 1 * 2\<close> is 0 in \<open>index_t\<close>, so
  \<open>posix_memalign\<close> is asked for 0 bytes and the first store of the loops is outside the
  block: initialization does not produce a buffer whose padding weights are 0 and whose
  accumulators are 1.0. (For counts below \<open>2 ^ 32\<close> it does: \<open>ffm_padding_fits\<close>.)
\<close>

theorem ffm_padding_out_of_bounds:
  "Initialize test_platform empty_Model ''ffm'' ''logloss'' 0x20000000 1 1 [] =
     Some (Inl (OutOfBounds, [Memalign 16 0])) \<and>
   roundUpToAlignment (unat (1 :: index_t)) (unat kAlign) = 4 \<and>
   computeSlotCount ''ffm'' (unat (0x20000000 :: index_t)) (unat (1 :: index_t)) (unat (1 :: index_t)) =
     4294967296"
  by (simp add: Initialize_ffm ffm_j_loop_empty_block computeSlotCount_def
      roundUpToAlignment_def kAlign_def kAlignByte_def)

subsection \<open>C3: weights and accumulators\<close>

text \<open>
  Claim C3, as amended. For a number of slots that fits \<open>index_t\<close>, initialization returns a
  buffer of \<open>slotCount\<close> slots: for the linear variant and the factorization machine, slot
  \<open>2i\<close> is a weight (0 for the linear variant) and slot \<open>2i + 1\<close> its accumulator, equal to
  1.0; for the field-aware variant the slots come in groups of \<open>2 * kAlign = 8\<close>, the
  weights of \<open>kAlign\<close> factor positions followed by their \<open>kAlign\<close> accumulators: slot
  \<open>8c + r\<close> with \<open>r < kAlign\<close> is a weight and slot \<open>8c + r + kAlign\<close> its accumulator, equal
  to 1.0.
\<close>

theorem weight_accumulator_layout:
  assumes "loss_func \<noteq> []" and "0 < num_feature"
    and "score_func = ''linear'' \<or> score_func = ''fm'' \<or> score_func = ''ffm''"
    and "computeSlotCount score_func (unat num_feature) (unat num_field) (unat num_K) < 2 ^ 32"
  shows "\<exists>m h'. Initialize P this score_func loss_func num_feature num_field num_K h = Some (Inr (m, h')) \<and>
    unat (m_param_num_w m) = computeSlotCount score_func (unat num_feature) (unat num_field) (unat num_K) \<and>
    length (m_param_w m) = unat (m_param_num_w m) \<and>
    (score_func = ''linear'' \<or> score_func = ''fm'' \<longrightarrow>
       (\<forall>i. 2 * i + 1 < unat (m_param_num_w m) \<longrightarrow>
          m_param_w m ! (2 * i) \<noteq> None \<and> m_param_w m ! (2 * i + 1) = Some (r_one P))) \<and>
    (score_func = ''linear'' \<longrightarrow>
       (\<forall>i. 2 * i + 1 < unat (m_param_num_w m) \<longrightarrow> m_param_w m ! (2 * i) = Some (r_zero P))) \<and>
    (score_func = ''ffm'' \<longrightarrow>
       (\<forall>c r. r < unat kAlign \<longrightarrow> 8 * c + r + unat kAlign < unat (m_param_num_w m) \<longrightarrow>
          m_param_w m ! (8 * c + r) \<noteq> None \<and> m_param_w m ! (8 * c + r + unat kAlign) = Some (r_one P)))"
proof -
  from Initialize_fits [OF assms, of P this h]
  obtain m h' where run: "Initialize P this score_func loss_func num_feature num_field num_K h = Some (Inr (m, h'))"
    and n: "unat (m_param_num_w m) = computeSlotCount score_func (unat num_feature) (unat num_field) (unat num_K)"
    by blast
  from run n Initialize_layout [OF run] show ?thesis
    by blast
qed

text \<open>
  Claim C3 as stated fails for the field-aware variant: with one feature, one field and
  one factor, slot 1 is the zero weight of a padding position, not an accumulator.
\<close>

theorem weight_accumulator_layout_counterexample:
  "Initialize test_platform empty_Model ''ffm'' ''logloss'' 1 1 1 [] =
     Some (Inr (\<lparr>m_score_func = ''ffm'', m_loss_func = ''logloss'', m_num_feat = 1, m_num_field = 1,
        m_num_K = 1, m_param_num_w = 8,
        m_param_w = [Some 0x3E000001, Some 0, Some 0, Some 0,
                     Some 0x3F800000, Some 0x3F800000, Some 0x3F800000, Some 0x3F800000]\<rparr>,
        [Memalign 16 32])) \<and>
   (2 * 0 + 1 :: nat) < unat (8 :: index_t) \<and>
   [Some 0x3E000001, Some 0, Some 0, Some 0,
    Some 0x3F800000, Some 0x3F800000, Some 0x3F800000, Some (0x3F800000 :: 32 word)] ! (2 * 0 + 1) \<noteq>
     Some (r_one test_platform)"
proof -
  have "Initialize test_platform empty_Model ''ffm'' ''logloss'' 1 1 1 [] =
     Some (Inr (\<lparr>m_score_func = ''ffm'', m_loss_func = ''logloss'', m_num_feat = 1, m_num_field = 1,
        m_num_K = 1, m_param_num_w = 8,
        m_param_w = [Some 0x3E000001, Some 0, Some 0, Some 0,
                     Some 0x3F800000, Some 0x3F800000, Some 0x3F800000, Some 0x3F800000]\<rparr>,
        [Memalign 16 32]))"
    by code_simp
  then show ?thesis
    by (simp add: test_platform_def)
qed

theorem weight_accumulator_layout_witness:
  "''logloss'' \<noteq> [] \<and> (0 :: index_t) < 2 \<and>
   computeSlotCount ''ffm'' (unat (2 :: index_t)) (unat (1 :: index_t)) (unat (3 :: index_t)) = 16 \<and>
   Initialize test_platform empty_Model ''ffm'' ''logloss'' 2 1 3 [] =
    Some (Inr (\<lparr>m_score_func = ''ffm'', m_loss_func = ''logloss'', m_num_feat = 2,
           m_num_field = 1, m_num_K = 3, m_param_num_w = 16,
           m_param_w =
             [Some 0x3E000001, Some 0x3E000002, Some 0x3E000003, Some 0,
              Some 0x3F800000, Some 0x3F800000, Some 0x3F800000, Some 0x3F800000,
              Some 0x3E000004, Some 0x3E000005, Some 0x3E000006, Some 0,
              Some 0x3F800000, Some 0x3F800000, Some 0x3F800000, Some 0x3F800000]\<rparr>,
        [Memalign 16 64])) \<and>
   (2 :: nat) < unat kAlign \<and> (8 * 1 + 2 + unat kAlign) < unat (16 :: index_t) \<and>
   [Some 0x3E000001, Some 0x3E000002, Some 0x3E000003, Some 0,
    Some 0x3F800000, Some 0x3F800000, Some 0x3F800000, Some 0x3F800000,
    Some 0x3E000004, Some 0x3E000005, Some 0x3E000006, Some 0,
    Some 0x3F800000, Some 0x3F800000, Some 0x3F800000, Some (0x3F800000 :: 32 word)] ! (8 * 1 + 2 + unat kAlign) =
     Some (r_one test_platform)"
proof -
  let ?M = "\<lparr>m_score_func = ''ffm'', m_loss_func = ''logloss'', m_num_feat = 2,
           m_num_field = 1, m_num_K = 3, m_param_num_w = 16,
           m_param_w =
             [Some 0x3E000001, Some 0x3E000002, Some 0x3E000003, Some 0,
              Some 0x3F800000, Some 0x3F800000, Some 0x3F800000, Some 0x3F800000,
              Some 0x3E000004, Some 0x3E000005, Some 0x3E000006, Some 0,
              Some 0x3F800000, Some 0x3F800000, Some 0x3F800000, Some (0x3F800000 :: 32 word)]\<rparr>"
  have run: "Initialize test_platform empty_Model ''ffm'' ''logloss'' 2 1 3 [] = Some (Inr (?M, [Memalign 16 64]))"
    by code_simp
  have c: "computeSlotCount ''ffm'' (unat (2 :: index_t)) (unat (1 :: index_t)) (unat (3 :: index_t)) = 16"
    by (simp add: computeSlotCount_def roundUpToAlignment_def kAlign_def)
  have a: "(2 :: nat) < unat kAlign" and b: "(8 * 1 + 2 + unat kAlign) < unat (m_param_num_w ?M)"
    by (simp_all add: unat_kAlign)
  from weight_accumulator_layout [of "''logloss''" 2 "''ffm''" 1 3 test_platform empty_Model "[]"] c
  obtain m h' where "Initialize test_platform empty_Model ''ffm'' ''logloss'' 2 1 3 [] = Some (Inr (m, h'))"
    and l: "\<forall>c r. r < unat kAlign \<longrightarrow> 8 * c + r + unat kAlign < unat (m_param_num_w m) \<longrightarrow>
          m_param_w m ! (8 * c + r) \<noteq> None \<and>
          m_param_w m ! (8 * c + r + unat kAlign) = Some (r_one test_platform)"
    by auto
  with run have m: "m = ?M"
    by simp
  from l a b have "m_param_w ?M ! (8 * 1 + 2 + unat kAlign) = Some (r_one test_platform)"
    unfolding m by blast
  with run a b c show ?thesis
    by simp
qed

subsection \<open>C2: the round trip through a checkpoint\<close>

text \<open>
  Claim C2. On a platform whose object representation is faithful, and for labels whose
  length fits the length prefix: whenever saving a fresh model returns, loading the file
  that was written gives a model equal to the original in every member: the two labels,
  \<open>featureCount\<close>, \<open>fieldCount\<close>, \<open>factorCount\<close>, \<open>slotCount\<close> and all the slots of the buffer
  (equal slots have equal bytes). The state of the loading object before the call does not
  matter. Saving returns exactly when the name is not empty, the file can be opened for
  writing and no write is short, that is when the disk has room for the bytes of the
  checkpoint; otherwise it fails and there is nothing to load.
\<close>

theorem checkpoint_round_trip:
  assumes "faithful_repr P" and "label_fits P score_func" and "label_fits P loss_func"
    and run: "Initialize P this score_func loss_func num_feature num_field num_K h = Some (Inr (m, h1))"
  shows "(\<forall>dk'. Serialize P m filename dk = Inr dk' \<longrightarrow>
            Deserialize P this' filename (d_files dk') h2 =
              Some (Inr (m, h2 @ [alloc_of P score_func (m_param_num_w m)]))) \<and>
         ((\<exists>dk'. Serialize P m filename dk = Inr dk') \<longleftrightarrow>
            filename \<noteq> [] \<and> d_writable dk filename \<and> length (checkpoint_bytes P m) \<le> d_room dk)"
proof (intro conjI allI impI)
  note mo = Initialize_model [OF run]
  note v = Initialize_variant [OF run]
  from mo have wr: "None \<notin> set (m_param_w m)" and len: "length (m_param_w m) = unat (m_param_num_w m)"
    by simp_all
  note s = Serialize_eq [OF wr len, of P filename dk]
  show "(\<exists>dk'. Serialize P m filename dk = Inr dk') \<longleftrightarrow>
      filename \<noteq> [] \<and> d_writable dk filename \<and> length (checkpoint_bytes P m) \<le> d_room dk"
    unfolding s by auto
  fix dk'
  assume "Serialize P m filename dk = Inr dk'"
  then have fn: "filename \<noteq> []"
    and f: "d_files dk' = (d_files dk)(filename \<mapsto> checkpoint_bytes P m)"
    unfolding s by (auto split: if_splits)
  let ?vs = "map the (m_param_w m)"
  have c: "checkpoint_bytes P m =
      header_bytes P score_func loss_func num_feature num_field num_K (m_param_num_w m) @
      concat (map (real_t_bytes P) ?vs)"
    using mo by (simp add: checkpoint_bytes_def)
  have "Deserialize P this' filename
      ((d_files dk)(filename \<mapsto> header_bytes P score_func loss_func num_feature num_field num_K (m_param_num_w m) @
        concat (map (real_t_bytes P) ?vs))) h2 =
    Some (Inr (\<lparr>m_score_func = score_func, m_loss_func = loss_func, m_num_feat = num_feature,
                 m_num_field = num_field, m_num_K = num_K, m_param_num_w = m_param_num_w m,
                 m_param_w = map Some ?vs\<rparr>,
               h2 @ [alloc_of P score_func (m_param_num_w m)]))"
    using v mo fn by (intro Deserialize_header_bytes assms) simp_all
  moreover have "\<lparr>m_score_func = score_func, m_loss_func = loss_func, m_num_feat = num_feature,
                 m_num_field = num_field, m_num_K = num_K, m_param_num_w = m_param_num_w m,
                 m_param_w = map Some ?vs\<rparr> = m"
    using mo written_block [OF wr] by (cases m) simp
  ultimately show "Deserialize P this' filename (d_files dk') h2 =
      Some (Inr (m, h2 @ [alloc_of P score_func (m_param_num_w m)]))"
    unfolding f c by simp
qed

theorem checkpoint_round_trip_witness:
  "faithful_repr test_platform \<and> label_fits test_platform ''ffm'' \<and> label_fits test_platform ''logloss'' \<and>
   Initialize test_platform empty_Model ''ffm'' ''logloss'' 1 1 1 [] =
     Some (Inr (\<lparr>m_score_func = ''ffm'', m_loss_func = ''logloss'', m_num_feat = 1, m_num_field = 1,
        m_num_K = 1, m_param_num_w = 8,
        m_param_w = [Some 0x3E000001, Some 0, Some 0, Some 0,
                     Some 0x3F800000, Some 0x3F800000, Some 0x3F800000, Some 0x3F800000]\<rparr>,
        [Memalign 16 32])) \<and>
   ''model.out'' \<noteq> [] \<and>
   d_writable \<lparr>d_files = Map.empty, d_writable = (\<lambda>name. name = ''model.out''), d_room = 100\<rparr> ''model.out'' \<and>
   length (checkpoint_bytes test_platform
        \<lparr>m_score_func = ''ffm'', m_loss_func = ''logloss'', m_num_feat = 1, m_num_field = 1,
        m_num_K = 1, m_param_num_w = 8,
        m_param_w = [Some 0x3E000001, Some 0, Some 0, Some 0,
                     Some 0x3F800000, Some 0x3F800000, Some 0x3F800000, Some 0x3F800000]\<rparr>) = 66 \<and>
   (\<exists>dk'. Serialize test_platform
        \<lparr>m_score_func = ''ffm'', m_loss_func = ''logloss'', m_num_feat = 1, m_num_field = 1,
        m_num_K = 1, m_param_num_w = 8,
        m_param_w = [Some 0x3E000001, Some 0, Some 0, Some 0,
                     Some 0x3F800000, Some 0x3F800000, Some 0x3F800000, Some 0x3F800000]\<rparr>
        ''model.out'' \<lparr>d_files = Map.empty, d_writable = (\<lambda>name. name = ''model.out''), d_room = 100\<rparr> = Inr dk' \<and>
      Deserialize test_platform empty_Model ''model.out'' (d_files dk') [] =
        Some (Inr (\<lparr>m_score_func = ''ffm'', m_loss_func = ''logloss'', m_num_feat = 1, m_num_field = 1,
          m_num_K = 1, m_param_num_w = 8,
          m_param_w = [Some 0x3E000001, Some 0, Some 0, Some 0,
                     Some 0x3F800000, Some 0x3F800000, Some 0x3F800000, Some 0x3F800000]\<rparr>,
          [Memalign 16 32])))"
proof -
  let ?M = "\<lparr>m_score_func = ''ffm'', m_loss_func = ''logloss'', m_num_feat = 1, m_num_field = 1,
        m_num_K = 1, m_param_num_w = 8,
        m_param_w = [Some 0x3E000001, Some 0, Some 0, Some 0,
                     Some 0x3F800000, Some 0x3F800000, Some 0x3F800000, Some (0x3F800000 :: 32 word)]\<rparr>"
  let ?D = "\<lparr>d_files = Map.empty, d_writable = (\<lambda>name. name = ''model.out''), d_room = 100\<rparr>"
  have run: "Initialize test_platform empty_Model ''ffm'' ''logloss'' 1 1 1 [] = Some (Inr (?M, [Memalign 16 32]))"
    by code_simp
  have f: "faithful_repr test_platform"
    by (rule faithful_repr_test_platform)
  have l: "label_fits test_platform ''ffm''" "label_fits test_platform ''logloss''"
    by (simp_all add: label_fits_test_platform)
  have a: "[] @ [alloc_of test_platform ''ffm'' (m_param_num_w ?M)] = [Memalign 16 32]"
    by (simp add: alloc_of_def kAlignByte_def test_platform_def)
  have c: "length (checkpoint_bytes test_platform ?M) = 66"
    by (simp add: checkpoint_bytes_def header_bytes_def test_platform_def length_le_bytes)
  from checkpoint_round_trip [OF f l run, of "''model.out''" ?D empty_Model "[]"]
  have "\<exists>dk'. Serialize test_platform ?M ''model.out'' ?D = Inr dk' \<and>
      Deserialize test_platform empty_Model ''model.out'' (d_files dk') [] = Some (Inr (?M, [Memalign 16 32]))"
    unfolding a c by auto
  with f l run c show ?thesis
    by simp
qed

subsection \<open>C5: the stored slot count is trusted\<close>

text \<open>
  Claim C5. Whatever the header of a checkpoint says, if its variant is one of the three
  and at least \<open>slotCount\<close> values follow the header, loading succeeds: the model has the
  stored \<open>slotCount\<close>, \<open>Initialize_w\<close> has requested exactly \<open>slotCount\<close> slots from the
  allocator, and the buffer holds exactly the first \<open>slotCount\<close> values of the file (bytes
  after them are not read). Nothing relates the stored \<open>slotCount\<close> to the stored counts.
\<close>

theorem load_trusts_slot_count:
  assumes "filename \<noteq> []" and "fs filename = Some bytes"
    and "parse_header P bytes = Some (variant, loss, nfeat, nfield, nK, n, rest)"
    and "variant = ''linear'' \<or> variant = ''fm'' \<or> variant = ''ffm''"
    and "sizeof_real_t P * unat n \<le> length rest"
  shows "Deserialize P this filename fs h =
      Some (Inr (\<lparr>m_score_func = variant, m_loss_func = loss, m_num_feat = nfeat, m_num_field = nfield,
                   m_num_K = nK, m_param_num_w = n,
                   m_param_w = map (\<lambda>c. Some (bytes_real_t P c)) (chunks (sizeof_real_t P) (unat n) rest)\<rparr>,
                 h @ [alloc_of P variant n])) \<and>
    length (chunks (sizeof_real_t P) (unat n) rest) = unat n \<and>
    chunks (sizeof_real_t P) (unat n) rest = chunks (sizeof_real_t P) (unat n) (take (sizeof_real_t P * unat n) rest)"
  using assms by (simp add: Deserialize_eq chunks_take) (simp add: chunks_def)

text \<open>
  A checkpoint of a linear model with 3 features, whose \<open>slotCount\<close> has been changed from 6
  to 2, is loaded with 2 slots.
\<close>

theorem load_trusts_slot_count_witness:
  "''model.out'' \<noteq> [] \<and>
   parse_header test_platform
     (header_bytes test_platform ''linear'' ''logloss'' 3 0 0 2 @
      concat (map le_bytes [0, 0x3F800000, 0, 0x3F800000, 0, 0x3F800000])) =
     Some (''linear'', ''logloss'', 3, 0, 0, 2, concat (map le_bytes [0, 0x3F800000, 0, 0x3F800000, 0, 0x3F800000])) \<and>
   sizeof_real_t test_platform * unat (2 :: index_t) \<le>
     length (concat (map le_bytes [0, 0x3F800000, 0, 0x3F800000, 0, 0x3F800000])) \<and>
   unat (2 :: index_t) \<noteq> computeSlotCount ''linear'' (unat (3 :: index_t)) (unat (0 :: index_t)) (unat (0 :: index_t)) \<and>
   Deserialize test_platform empty_Model ''model.out''
     [''model.out'' \<mapsto> header_bytes test_platform ''linear'' ''logloss'' 3 0 0 2 @
        concat (map le_bytes [0, 0x3F800000, 0, 0x3F800000, 0, 0x3F800000])] [] =
     Some (Inr (\<lparr>m_score_func = ''linear'', m_loss_func = ''logloss'', m_num_feat = 3, m_num_field = 0,
                  m_num_K = 0, m_param_num_w = 2, m_param_w = [Some 0, Some 0x3F800000]\<rparr>,
                [Malloc 8]))"
proof -
  let ?data = "concat (map le_bytes [0, 0x3F800000, 0, 0x3F800000, 0, 0x3F800000])"
  let ?bytes = "header_bytes test_platform ''linear'' ''logloss'' 3 0 0 2 @ ?data"
  have p: "parse_header test_platform ?bytes = Some (''linear'', ''logloss'', 3, 0, 0, 2, ?data)"
    by (rule parse_header_header_bytes [OF faithful_repr_test_platform])
      (simp_all add: label_fits_test_platform)
  have len: "sizeof_real_t test_platform * unat (2 :: index_t) \<le> length ?data"
    by (simp add: test_platform_def length_le_bytes)
  have c: "map (\<lambda>c. Some (bytes_real_t test_platform c)) (chunks (sizeof_real_t test_platform) (unat (2 :: index_t)) ?data) =
      [Some 0, Some 0x3F800000]"
    by code_simp
  have a: "[] @ [alloc_of test_platform ''linear'' 2] = [Malloc 8]"
    by (simp add: alloc_of_def test_platform_def)
  have d: "unat (2 :: index_t) \<noteq> computeSlotCount ''linear'' (unat (3 :: index_t)) (unat (0 :: index_t)) (unat (0 :: index_t))"
    by (simp add: computeSlotCount_def)
  from load_trusts_slot_count [of "''model.out''" "[''model.out'' \<mapsto> ?bytes]" ?bytes test_platform
      "''linear''" "''logloss''" 3 0 0 2 ?data empty_Model "[]", OF _ _ p _ len]
  have "Deserialize test_platform empty_Model ''model.out'' [''model.out'' \<mapsto> ?bytes] [] =
     Some (Inr (\<lparr>m_score_func = ''linear'', m_loss_func = ''logloss'', m_num_feat = 3, m_num_field = 0,
                  m_num_K = 0, m_param_num_w = 2, m_param_w = [Some 0, Some 0x3F800000]\<rparr>,
                [Malloc 8]))"
    unfolding c a by simp
  with p len d show ?thesis
    by simp
qed

subsection \<open>C4: what loading rejects\<close>

text \<open>
  Claim C4, as amended. For a file that holds a complete header: loading fails, at
  \<open>LOG(FATAL) << "Unknow score function"\<close> and before anything is allocated, whenever the
  stored variant label is none of \<open>linear\<close>, \<open>fm\<close> and \<open>ffm\<close>; when the label is one of the
  three and at least \<open>slotCount\<close> values follow the header, loading succeeds, whatever the loss
  label and the stored counts are; and a model that has been loaded has one of the three
  labels.
\<close>

theorem load_checks_variant_only:
  assumes "filename \<noteq> []" and "fs filename = Some bytes"
    and "parse_header P bytes = Some (variant, loss, nfeat, nfield, nK, n, rest)"
  shows "(variant \<noteq> ''linear'' \<and> variant \<noteq> ''fm'' \<and> variant \<noteq> ''ffm'' \<longrightarrow>
       Deserialize P this filename fs h = Some (Inl (FATAL_unknown_score_function variant, h))) \<and>
    ((variant = ''linear'' \<or> variant = ''fm'' \<or> variant = ''ffm'') \<and> sizeof_real_t P * unat n \<le> length rest \<longrightarrow>
       (\<exists>buf. Deserialize P this filename fs h =
          Some (Inr (\<lparr>m_score_func = variant, m_loss_func = loss, m_num_feat = nfeat, m_num_field = nfield,
                       m_num_K = nK, m_param_num_w = n, m_param_w = buf\<rparr>, h @ [alloc_of P variant n])))) \<and>
    (\<forall>m h'. Deserialize P this filename fs h = Some (Inr (m, h')) \<longrightarrow>
       m_score_func m = variant \<and> (variant = ''linear'' \<or> variant = ''fm'' \<or> variant = ''ffm''))"
  using assms by (auto simp: Deserialize_eq split: if_splits)

text \<open>
  Claim C4 as stated fails: a checkpoint with the loss label \<open>bogus\<close> and \<open>featureCount = 0\<close>
  is loaded without a failure. \<open>Deserialize\<close> does not interpret the loss label and does
  not check the counts.
\<close>

theorem load_checks_variant_only_counterexample:
  "parse_header test_platform (header_bytes test_platform ''linear'' ''bogus'' 0 0 0 0) =
     Some (''linear'', ''bogus'', 0, 0, 0, 0, []) \<and>
   Deserialize test_platform empty_Model ''model.out''
     [''model.out'' \<mapsto> header_bytes test_platform ''linear'' ''bogus'' 0 0 0 0] [Malloc 8] =
     Some (Inr (\<lparr>m_score_func = ''linear'', m_loss_func = ''bogus'', m_num_feat = 0, m_num_field = 0,
                  m_num_K = 0, m_param_num_w = 0, m_param_w = []\<rparr>, [Malloc 8, Malloc 0]))"
proof -
  have p: "parse_header test_platform (header_bytes test_platform ''linear'' ''bogus'' 0 0 0 0 @ []) =
     Some (''linear'', ''bogus'', 0, 0, 0, 0, [])"
    by (rule parse_header_header_bytes [OF faithful_repr_test_platform])
      (simp_all add: label_fits_test_platform)
  then show ?thesis
    by (simp add: Deserialize_eq alloc_of_def chunks_def)
qed

theorem load_checks_variant_only_witness:
  "''model.out'' \<noteq> [] \<and>
   parse_header test_platform (header_bytes test_platform ''svm'' ''logloss'' 3 0 0 6) =
     Some (''svm'', ''logloss'', 3, 0, 0, 6, []) \<and>
   ''svm'' \<noteq> ''linear'' \<and> ''svm'' \<noteq> ''fm'' \<and> ''svm'' \<noteq> ''ffm'' \<and>
   Deserialize test_platform empty_Model ''model.out''
     [''model.out'' \<mapsto> header_bytes test_platform ''svm'' ''logloss'' 3 0 0 6] [] =
     Some (Inl (FATAL_unknown_score_function ''svm'', []))"
proof -
  have p: "parse_header test_platform (header_bytes test_platform ''svm'' ''logloss'' 3 0 0 6 @ []) =
     Some (''svm'', ''logloss'', 3, 0, 0, 6, [])"
    by (rule parse_header_header_bytes [OF faithful_repr_test_platform])
      (simp_all add: label_fits_test_platform)
  then have p': "parse_header test_platform (header_bytes test_platform ''svm'' ''logloss'' 3 0 0 6) =
     Some (''svm'', ''logloss'', 3, 0, 0, 6, [])"
    by simp
  from load_checks_variant_only [of "''model.out''"
      "[''model.out'' \<mapsto> header_bytes test_platform ''svm'' ''logloss'' 3 0 0 6]" _ test_platform
      "''svm''" "''logloss''" 3 0 0 6 "[]" empty_Model "[]", OF _ _ p'] p'
  show ?thesis
    by simp
qed

end
